theory Spec2Isabelle
  imports Complex_Main "HOL-Library.Word"
begin

section \<open>JavaScript strings\<close>

text \<open>
  A JavaScript string is a sequence of UTF-16 code units; \<open>length\<close> counts code units.
  \<open>js\<close> turns an ASCII literal into such a sequence.
\<close>

type_synonym jschar = "16 word"
type_synonym jsstring = "jschar list"

definition js :: "string \<Rightarrow> jsstring" where
  "js s = map of_char s"

abbreviation SPACE :: jschar where "SPACE \<equiv> 0x20"
abbreviation DOT :: jschar where "DOT \<equiv> 0x2E"
abbreviation COMMA :: jschar where "COMMA \<equiv> 0x2C"
abbreviation MINUS :: jschar where "MINUS \<equiv> 0x2D"
abbreviation PLUS :: jschar where "PLUS \<equiv> 0x2B"

text \<open>
  The code units \<open>String.prototype.trim\<close> and \<open>parseInt\<close> strip: ECMAScript WhiteSpace
  and LineTerminator (TAB, LF, VT, FF, CR, SP, NBSP, U+1680, U+2000..U+200A, U+2028,
  U+2029, U+202F, U+205F, U+3000, U+FEFF).
\<close>

definition isWhiteSpace :: "jschar \<Rightarrow> bool" where
  "isWhiteSpace c =
     (c = 0x09 \<or> c = 0x0A \<or> c = 0x0B \<or> c = 0x0C \<or> c = 0x0D \<or> c = 0x20 \<or> c = 0xA0
      \<or> c = 0x1680 \<or> (0x2000 \<le> c \<and> c \<le> 0x200A) \<or> c = 0x2028 \<or> c = 0x2029
      \<or> c = 0x202F \<or> c = 0x205F \<or> c = 0x3000 \<or> c = 0xFEFF)"

definition trim :: "jsstring \<Rightarrow> jsstring" where
  "trim s = rev (dropWhile isWhiteSpace (rev (dropWhile isWhiteSpace s)))"

text \<open>
  \<open>s.substring(indexStart, indexEnd)\<close>: both indices are clamped to \<open>[0, s.length]\<close> and
  swapped when the first exceeds the second. \<open>substringFrom\<close> is the one-argument form.
\<close>

definition substring :: "jsstring \<Rightarrow> int \<Rightarrow> int \<Rightarrow> jsstring" where
  "substring s indexStart indexEnd =
     (let len = int (length s);
          a = max 0 (min indexStart len);
          b = max 0 (min indexEnd len);
          lo = min a b;
          hi = max a b
      in take (nat (hi - lo)) (drop (nat lo) s))"

definition substringFrom :: "jsstring \<Rightarrow> int \<Rightarrow> jsstring" where
  "substringFrom s indexStart = drop (nat (max 0 (min indexStart (int (length s))))) s"

text \<open>\<open>s.lastIndexOf(c)\<close> for a one-unit search string: the last index of \<open>c\<close>, or \<open>-1\<close>.\<close>

definition lastIndexOf :: "jsstring \<Rightarrow> jschar \<Rightarrow> int" where
  "lastIndexOf s c =
     (if c \<in> set s then int (length s) - 1 - int (length (takeWhile (\<lambda>x. x \<noteq> c) (rev s)))
      else - 1)"

text \<open>\<open>xs.join(sep)\<close> on an array of strings.\<close>

fun join :: "jsstring \<Rightarrow> jsstring list \<Rightarrow> jsstring" where
  "join sep [] = []"
| "join sep [x] = x"
| "join sep (x # y # ys) = x @ sep @ join sep (y # ys)"

section \<open>Text layout: printer-api.js\<close>

subsection \<open>createTwoColumnLine\<close>

text \<open>
  \<open>' '.repeat(spaceNeeded)\<close> is only reached with \<open>spaceNeeded \<ge> 1\<close>, so its RangeError
  on a negative count cannot occur.
\<close>

definition createTwoColumnLine :: "jsstring \<Rightarrow> jsstring \<Rightarrow> int \<Rightarrow> jsstring" where
  "createTwoColumnLine leftStr rightStr totalWidth =
     (let spaceNeeded = totalWidth - int (length leftStr) - int (length rightStr)
      in if spaceNeeded < 1
         then (let truncatedLeft = substring leftStr 0 (totalWidth - int (length rightStr) - 1)
               in truncatedLeft @ [SPACE] @ rightStr)
         else leftStr @ replicate (nat spaceNeeded) SPACE @ rightStr)"

subsection \<open>wrapText\<close>

text \<open>
  The body of the \<open>while (remaining.length > 0)\<close> loop. The loop has no bound of its
  own, so it is a partial function: \<open>None\<close> is a run that never returns.
\<close>

definition breakPoint :: "int \<Rightarrow> jsstring \<Rightarrow> int" where
  "breakPoint maxWidth remaining =
     (let lastSpace = lastIndexOf (substring remaining 0 maxWidth) SPACE
      in if lastSpace > 0 then lastSpace else maxWidth)"

partial_function (option) wrapLoop :: "int \<Rightarrow> jsstring \<Rightarrow> jsstring list \<Rightarrow> jsstring list option" where
  "wrapLoop maxWidth remaining lines =
     (if length remaining > 0
      then (if int (length remaining) \<le> maxWidth
            then Some (lines @ [remaining])
            else wrapLoop maxWidth
                   (trim (substringFrom remaining (breakPoint maxWidth remaining)))
                   (lines @ [trim (substring remaining 0 (breakPoint maxWidth remaining))]))
      else Some lines)"

declare wrapLoop.simps [code]

definition wrapText :: "jsstring \<Rightarrow> int \<Rightarrow> jsstring list option" where
  "wrapText text maxWidth =
     (if int (length text) \<le> maxWidth then Some [text] else wrapLoop maxWidth text [])"

subsection \<open>getOptimalCharacterWidth\<close>




section \<open>Number formatting: printer-api.js\<close>

subsection \<open>parseInt and Number to string\<close>

text \<open>
  \<open>parseInt(string)\<close> with no radix: leading whitespace is skipped, then an optional sign,
  then \<open>0x\<close> or \<open>0X\<close> selects radix 16, then the longest run of digits is read; no
  digit gives \<open>NaN\<close>, here \<open>None\<close>. The result is modelled as an exact integer. The
  source holds it in a double, which is exact below \<open>2^53\<close>; \<open>-0\<close> is the integer 0 here,
  and like it is not \<open>< 0\<close>.
\<close>

definition isDigit :: "jschar \<Rightarrow> bool" where
  "isDigit c = (0x30 \<le> c \<and> c \<le> 0x39)"

definition isHexDigit :: "jschar \<Rightarrow> bool" where
  "isHexDigit c = (isDigit c \<or> (0x41 \<le> c \<and> c \<le> 0x46) \<or> (0x61 \<le> c \<and> c \<le> 0x66))"

definition digitValue :: "jschar \<Rightarrow> nat" where
  "digitValue c =
     (if isDigit c then unat c - 0x30
      else if 0x41 \<le> c \<and> c \<le> 0x46 then unat c - 0x41 + 10
      else unat c - 0x61 + 10)"

definition digitsValue :: "nat \<Rightarrow> jsstring \<Rightarrow> nat" where
  "digitsValue radix ds = foldl (\<lambda>acc c. acc * radix + digitValue c) 0 ds"

definition parseInt :: "jsstring \<Rightarrow> int option" where
  "parseInt inputString =
     (let s = dropWhile isWhiteSpace inputString;
          negative = (s \<noteq> [] \<and> hd s = MINUS);
          s = (if s \<noteq> [] \<and> (hd s = PLUS \<or> hd s = MINUS) then tl s else s);
          hex = (2 \<le> length s \<and> s ! 0 = 0x30 \<and> (s ! 1 = 0x78 \<or> s ! 1 = 0x58));
          s = (if hex then drop 2 s else s);
          digits = takeWhile (if hex then isHexDigit else isDigit) s
      in if digits = [] then None
         else Some ((if negative then - 1 else 1) * int (digitsValue (if hex then 16 else 10) digits)))"

text \<open>
  \<open>new String(i)\<close> for a non-negative integer \<open>i\<close> below \<open>10^21\<close>: its decimal digits.
\<close>

function numberToString :: "nat \<Rightarrow> jsstring" where
  "numberToString n =
     (if n < 10 then [0x30 + of_nat n] else numberToString (n div 10) @ [0x30 + of_nat (n mod 10)])"
  by pat_completeness auto
termination
  by (relation "measure (\<lambda>n. n)") auto

subsection \<open>CommaFormatted\<close>

text \<open>
  The \<open>while (n.length > 3)\<close> loop: \<open>n.substr(n.length - 3)\<close>, the last three units, goes
  to the front of the array \<open>a\<close>, and \<open>n\<close> keeps \<open>n.substr(0, n.length - 3)\<close>, the rest.
\<close>

function groupLoop :: "jsstring \<Rightarrow> jsstring list \<Rightarrow> jsstring \<times> jsstring list" where
  "groupLoop n a =
     (if length n > 3
      then (let nn = substringFrom n (int (length n) - 3)
            in groupLoop (substring n 0 (int (length n) - 3)) (nn # a))
      else (n, a))"
  by pat_completeness auto
termination
  by (relation "measure (\<lambda>(n, a). length n)") (auto simp: substring_def Let_def)

text \<open>The replacement of the pattern \<open>/\.00$/\<close> by the empty string.\<close>

definition stripDot00 :: "jsstring \<Rightarrow> jsstring" where
  "stripDot00 s =
     (if 3 \<le> length s \<and> drop (length s - 3) s = [DOT, 0x30, 0x30] then take (length s - 3) s else s)"

text \<open>
  \<open>amount.split('.', 2)\<close> gives the piece before the first dot and, when there is a dot,
  the piece between the first and the second; \<open>a[1] || ''\<close> is the empty string without one.
\<close>

definition CommaFormatted :: "jsstring \<Rightarrow> jsstring" where
  "CommaFormatted amount =
     (let delimiter = [COMMA];
          a0 = takeWhile (\<lambda>c. c \<noteq> DOT) amount;
          a1 = (case dropWhile (\<lambda>c. c \<noteq> DOT) amount of
                  [] \<Rightarrow> None
                | _ # rest \<Rightarrow> Some (takeWhile (\<lambda>c. c \<noteq> DOT) rest));
          d = (case a1 of None \<Rightarrow> [] | Some x \<Rightarrow> x)
      in case parseInt a0 of
           None \<Rightarrow> []
         | Some i \<Rightarrow>
             (let minus = (if i < 0 then [MINUS] else []);
                  (n, a) = groupLoop (numberToString (nat \<bar>i\<bar>)) [];
                  a = (if length n > 0 then n # a else a);
                  n = join delimiter a;
                  amount = (if length d < 1 then n else n @ [DOT] @ d);
                  amount = stripDot00 amount
              in minus @ amount))"

section \<open>Print endpoints\<close>

subsection \<open>The /print handler: printer-api.js\<close>

text \<open>
  The response is its HTTP status. A request body field that is absent is \<open>None\<close>;
  \<open>truthy\<close> is JavaScript truthiness of an optional string and \<open>toStr\<close> its conversion
  inside a template literal.
\<close>

datatype response = Status nat

record printerInfo =
  name :: "jsstring option"

record printRequest =
  printer :: "printerInfo option"
  html :: "jsstring option"
  widthMM :: "rat option"
  heightMM :: "rat option"

definition truthy :: "jsstring option \<Rightarrow> bool" where
  "truthy v = (case v of None \<Rightarrow> False | Some s \<Rightarrow> s \<noteq> [])"

definition toStr :: "jsstring option \<Rightarrow> jsstring" where
  "toStr v = (case v of None \<Rightarrow> js ''undefined'' | Some s \<Rightarrow> s)"

text \<open>
  The promise around \<open>win.webContents.print\<close>. Two things can happen while it is pending,
  in any order and any number of times: the 30 second timer fires, or the native print
  callback is called with its success flag. A promise settles once; later calls to
  \<open>resolve\<close> or \<open>reject\<close> change nothing.
\<close>

datatype printEvent = TimerFires | PrintCallback bool

datatype settled = Resolved | Rejected jsstring

record printPromise =
  callbackCalled :: bool
  outcome :: "settled option"

definition settle :: "settled \<Rightarrow> printPromise \<Rightarrow> printPromise" where
  "settle v p = (case outcome p of None \<Rightarrow> p\<lparr>outcome := Some v\<rparr> | Some _ \<Rightarrow> p)"

fun printEventStep :: "printPromise \<Rightarrow> printEvent \<Rightarrow> printPromise" where
  "printEventStep p TimerFires =
     (if \<not> callbackCalled p
      then settle (Rejected (js ''Print operation timed out after 30 seconds'')) (p\<lparr>callbackCalled := True\<rparr>)
      else p)"
| "printEventStep p (PrintCallback success) =
     (if callbackCalled p then p
      else (let p = p\<lparr>callbackCalled := True\<rparr>
            in if \<not> success then settle Resolved p else settle Resolved p))"

definition awaitPrint :: "printEvent list \<Rightarrow> settled option" where
  "awaitPrint events = outcome (foldl printEventStep \<lparr>callbackCalled = False, outcome = None\<rparr> events)"

text \<open>
  What the handler meets after validation: creating the window or loading the page throws,
  or the print is started and events arrive. \<open>None\<close> is a handler that has not responded:
  its promise is still pending.
\<close>

datatype printRun = WindowThrows jsstring | Printing "printEvent list"

definition printHandler :: "printRequest \<Rightarrow> printRun \<Rightarrow> response option" where
  "printHandler req run =
     (case printer req of
        None \<Rightarrow> Some (Status 400)
      | Some p \<Rightarrow>
          if \<not> truthy (name p) then Some (Status 400)
          else (case run of
                  WindowThrows e \<Rightarrow> Some (Status 500)
                | Printing events \<Rightarrow>
                    (case awaitPrint events of
                       None \<Rightarrow> None
                     | Some Resolved \<Rightarrow> Some (Status 204)
                     | Some (Rejected e) \<Rightarrow> Some (Status 500))))"

text \<open>The same event with every callback reporting success.\<close>

definition asSuccess :: "printEvent \<Rightarrow> printEvent" where
  "asSuccess e = (case e of TimerFires \<Rightarrow> TimerFires | PrintCallback _ \<Rightarrow> PrintCallback True)"


subsection \<open>The job registry: the revision that has activePrintJobs\<close>

text \<open>
  The revision of printer-api.js that tracks active print jobs keeps
  \<open>activePrintJobs\<close>, a Map from printer name to job key, shared by the /print and
  /print-thermal handlers. Each handler runs without interruption from its start to its
  first \<open>await\<close>: validation, the \<open>has\<close> check and the \<open>set\<close> are one step (\<open>admit\<close>).
  Every later path, success or catch, ends with the same guarded \<open>delete\<close>
  (\<open>completeJob\<close>). \<open>Date.now()\<close> is the argument \<open>now\<close>. /print-thermal does not check
  \<open>printerInfo.name\<close>, so the key can be \<open>undefined\<close>, here \<open>None\<close>.
\<close>

type_synonym jobRegistry = "jsstring option \<Rightarrow> jsstring option"

record 'p thermalRequest =
  thermalPrinter :: "printerInfo option"
  receiptData :: "'p option"
  receiptTotals :: "'p option"
  paperWidthMM :: "rat option"

datatype admission = Refused response | Admitted "jsstring option" jsstring

definition jobKeyOf :: "jsstring option \<Rightarrow> nat \<Rightarrow> jsstring" where
  "jobKeyOf printerName now = toStr printerName @ [MINUS] @ numberToString now"

definition admitJob :: "jsstring option \<Rightarrow> nat \<Rightarrow> jobRegistry \<Rightarrow> admission \<times> jobRegistry" where
  "admitJob printerName now activePrintJobs =
     (let jobKey = jobKeyOf printerName now
      in if activePrintJobs printerName \<noteq> None
         then (Refused (Status 409), activePrintJobs)
         else (Admitted printerName jobKey, activePrintJobs(printerName \<mapsto> jobKey)))"

definition printAdmit :: "printRequest \<Rightarrow> nat \<Rightarrow> jobRegistry \<Rightarrow> admission \<times> jobRegistry" where
  "printAdmit req now activePrintJobs =
     (case printer req of
        None \<Rightarrow> (Refused (Status 400), activePrintJobs)
      | Some p \<Rightarrow>
          if \<not> truthy (name p) then (Refused (Status 400), activePrintJobs)
          else admitJob (name p) now activePrintJobs)"

definition thermalAdmit :: "'p thermalRequest \<Rightarrow> nat \<Rightarrow> jobRegistry \<Rightarrow> admission \<times> jobRegistry" where
  "thermalAdmit req now activePrintJobs =
     (case thermalPrinter req of
        None \<Rightarrow> (Refused (Status 400), activePrintJobs)
      | Some printerInfo \<Rightarrow>
          if receiptData req = None \<or> receiptTotals req = None
             \<or> paperWidthMM req = None \<or> paperWidthMM req = Some 0
          then (Refused (Status 400), activePrintJobs)
          else admitJob (name printerInfo) now activePrintJobs)"

definition releaseJob :: "jsstring option \<Rightarrow> jsstring \<Rightarrow> jobRegistry \<Rightarrow> jobRegistry" where
  "releaseJob printerName jobKey activePrintJobs =
     (if jobKey \<noteq> [] \<and> activePrintJobs printerName = Some jobKey
      then activePrintJobs(printerName := None)
      else activePrintJobs)"

definition completeJob :: "jsstring option \<Rightarrow> jsstring \<Rightarrow> bool \<Rightarrow> jobRegistry \<Rightarrow> response \<times> jobRegistry" where
  "completeJob printerName jobKey succeeded activePrintJobs =
     (if succeeded
      then (Status 204, releaseJob printerName jobKey activePrintJobs)
      else (Status 500, releaseJob printerName jobKey activePrintJobs))"

datatype 'p request = HtmlJob printRequest | ThermalJob "'p thermalRequest"

fun admit :: "'p request \<Rightarrow> nat \<Rightarrow> jobRegistry \<Rightarrow> admission \<times> jobRegistry" where
  "admit (HtmlJob req) now jobs = printAdmit req now jobs"
| "admit (ThermalJob req) now jobs = thermalAdmit req now jobs"

fun wellFormed :: "'p request \<Rightarrow> bool" where
  "wellFormed (HtmlJob req) = (case printer req of None \<Rightarrow> False | Some p \<Rightarrow> truthy (name p))"
| "wellFormed (ThermalJob req) =
     (thermalPrinter req \<noteq> None \<and> receiptData req \<noteq> None \<and> receiptTotals req \<noteq> None
      \<and> paperWidthMM req \<noteq> None \<and> paperWidthMM req \<noteq> Some 0)"

fun target :: "'p request \<Rightarrow> jsstring option" where
  "target (HtmlJob req) = (case printer req of None \<Rightarrow> None | Some p \<Rightarrow> name p)"
| "target (ThermalJob req) = (case thermalPrinter req of None \<Rightarrow> None | Some p \<Rightarrow> name p)"

text \<open>
  The server between events: the registry and the handlers suspended at an \<open>await\<close>,
  each holding its printer name and job key. An event is a request arriving or a suspended
  handler finishing, with success or through its catch block.
\<close>

record server =
  activePrintJobs :: jobRegistry
  inFlight :: "(jsstring option \<times> jsstring) list"

datatype 'p event = Arrives "'p request" nat | Completes "jsstring option" jsstring bool

fun serve :: "server \<Rightarrow> 'p event \<Rightarrow> server" where
  "serve s (Arrives req now) =
     (case admit req now (activePrintJobs s) of
        (Refused r, jobs) \<Rightarrow> s\<lparr>activePrintJobs := jobs\<rparr>
      | (Admitted printerName jobKey, jobs) \<Rightarrow>
          s\<lparr>activePrintJobs := jobs, inFlight := (printerName, jobKey) # inFlight s\<rparr>)"
| "serve s (Completes printerName jobKey succeeded) =
     (if (printerName, jobKey) \<in> set (inFlight s)
      then s\<lparr>activePrintJobs := snd (completeJob printerName jobKey succeeded (activePrintJobs s)),
             inFlight := remove1 (printerName, jobKey) (inFlight s)\<rparr>
      else s)"

definition startup :: server where
  "startup = \<lparr>activePrintJobs = Map.empty, inFlight = []\<rparr>"

definition consistent :: "server \<Rightarrow> bool" where
  "consistent s \<longleftrightarrow> distinct (map fst (inFlight s))
     \<and> (\<forall>n k. activePrintJobs s n = Some k \<longleftrightarrow> (n, k) \<in> set (inFlight s))"

definition keyed :: "server \<Rightarrow> bool" where
  "keyed s \<longleftrightarrow> (\<forall>(n, k)\<in>set (inFlight s). k \<noteq> [])"


section \<open>Startup: ensurePortsAvailable and startApi\<close>

text \<open>
  The operating system and the other processes are a world \<open>'w\<close> that the four
  operations read and change. \<open>isPortAvailable\<close>, \<open>attemptGracefulShutdown\<close> and
  \<open>killProcessOnPort\<close> are the source's functions of those names, each resolving to a
  boolean. \<open>startServices\<close> is the rest of the \<open>try\<close> block of \<open>startApi\<close> once the ports
  are free: the servers are listening, or the HTTP server emits an error (EADDRINUSE or
  another), or an exception reaches the \<open>catch\<close> block with its message.
\<close>

datatype serviceOutcome = Listening | AddressInUse | OtherListenError | Throws "jsstring option"

record 'w os =
  isPortAvailable :: "nat \<Rightarrow> 'w \<Rightarrow> bool \<times> 'w"
  attemptGracefulShutdown :: "nat \<Rightarrow> 'w \<Rightarrow> bool \<times> 'w"
  killProcessOnPort :: "nat \<Rightarrow> 'w \<Rightarrow> bool \<times> 'w"
  startServices :: "'w \<Rightarrow> serviceOutcome \<times> 'w"

fun ensurePortsAvailable :: "'w os \<Rightarrow> nat list \<Rightarrow> 'w \<Rightarrow> bool \<times> 'w" where
  "ensurePortsAvailable os [] w = (True, w)"
| "ensurePortsAvailable os (port # ports) w =
     (case isPortAvailable os port w of
        (True, w) \<Rightarrow> ensurePortsAvailable os ports w
      | (False, w) \<Rightarrow>
          (case attemptGracefulShutdown os port w of
             (graceful, w) \<Rightarrow>
               (case (if graceful then isPortAvailable os port w else (False, w)) of
                  (True, w) \<Rightarrow> ensurePortsAvailable os ports w
                | (False, w) \<Rightarrow>
                    (case killProcessOnPort os port w of
                       (killed, w) \<Rightarrow>
                         (case isPortAvailable os port w of
                            (finalCheck, w) \<Rightarrow>
                              if \<not> finalCheck then (False, w)
                              else ensurePortsAvailable os ports w)))))"

declare ensurePortsAvailable.simps [simp del]

text \<open>
  \<open>startApi\<close> with the counter \<open>apiStartupAttempts\<close> as an argument. A retry is the
  \<open>setTimeout(() => startApi(webContents), 3000)\<close> of the source: the delay is recorded
  and the call follows. The result is what an observer sees, in order, with the final
  counter and world. \<open>StartupFailed\<close> is the \<open>api-startup-failed\<close> message sent to the
  shell, which needs \<open>webContents\<close> to be set.
\<close>

datatype startupEvent = PortsChecked bool | RetryAfter nat | Running | StartupFailed jsstring

definition MAX_STARTUP_ATTEMPTS :: nat where
  "MAX_STARTUP_ATTEMPTS = 3"

function startApi :: "'w os \<Rightarrow> bool \<Rightarrow> nat \<Rightarrow> 'w \<Rightarrow> startupEvent list \<times> nat \<times> 'w" where
  "startApi os webContents apiStartupAttempts w =
     (case ensurePortsAvailable os [21321, 21322] w of
        (False, w) \<Rightarrow>
          (if apiStartupAttempts + 1 < MAX_STARTUP_ATTEMPTS
           then (case startApi os webContents (apiStartupAttempts + 1) w of
                   (events, final) \<Rightarrow> (PortsChecked False # RetryAfter 3000 # events, final))
           else (PortsChecked False #
                   (if webContents
                    then [StartupFailed (js ''Ports 21321 and 21322 are occupied and cannot be freed'')]
                    else []),
                 apiStartupAttempts + 1, w))
      | (True, w) \<Rightarrow>
          (case startServices os w of
             (Listening, w) \<Rightarrow> ([PortsChecked True, Running], 0, w)
           | (AddressInUse, w) \<Rightarrow>
               (if apiStartupAttempts + 1 < MAX_STARTUP_ATTEMPTS
                then (case startApi os webContents (apiStartupAttempts + 1) w of
                        (events, final) \<Rightarrow> (PortsChecked True # RetryAfter 3000 # events, final))
                else ([PortsChecked True], apiStartupAttempts + 1, w))
           | (OtherListenError, w) \<Rightarrow> ([PortsChecked True], apiStartupAttempts, w)
           | (Throws message, w) \<Rightarrow>
               (if apiStartupAttempts + 1 < MAX_STARTUP_ATTEMPTS
                then (case startApi os webContents (apiStartupAttempts + 1) w of
                        (events, final) \<Rightarrow> (PortsChecked True # RetryAfter 3000 # events, final))
                else (PortsChecked True #
                        (if webContents
                         then [StartupFailed (if truthy message then toStr message
                                              else js ''Unknown startup error'')]
                         else []),
                      apiStartupAttempts + 1, w))))"
  by pat_completeness auto
termination
  by (relation "measure (\<lambda>(os, webContents, apiStartupAttempts, w). MAX_STARTUP_ATTEMPTS - apiStartupAttempts)") auto

declare startApi.simps [simp del]

fun isPortsChecked :: "startupEvent \<Rightarrow> bool" where
  "isPortsChecked (PortsChecked b) = True"
| "isPortsChecked e = False"

text \<open>An operating system whose ports never come free, logging the calls it receives.\<close>

datatype osCall = Probe nat | Graceful nat | Kill nat | Serve

definition stuckPorts :: "osCall list os" where
  "stuckPorts =
     \<lparr>isPortAvailable = (\<lambda>port calls. (False, calls @ [Probe port])),
      attemptGracefulShutdown = (\<lambda>port calls. (False, calls @ [Graceful port])),
      killProcessOnPort = (\<lambda>port calls. (False, calls @ [Kill port])),
      startServices = (\<lambda>calls. (Listening, calls @ [Serve]))\<rparr>"

text \<open>
  An operating system whose ports are free at every check but taken again when the HTTP
  server starts to listen.
\<close>

definition busyAtListen :: "unit os" where
  "busyAtListen =
     \<lparr>isPortAvailable = (\<lambda>port u. (True, u)),
      attemptGracefulShutdown = (\<lambda>port u. (False, u)),
      killProcessOnPort = (\<lambda>port u. (False, u)),
      startServices = (\<lambda>u. (AddressInUse, u))\<rparr>"

section \<open>Receipt rendering: buildThermalReceipt\<close>

text \<open>
  A call returns a value, throws a TypeError, or never returns (a \<open>wrapText\<close> loop that
  does not end). \<open>andThen\<close> is sequencing: the first statement that does not return decides.
\<close>

datatype 'a completion = Returns 'a | ThrowsTypeError | NeverReturns

definition andThen :: "'a completion \<Rightarrow> ('a \<Rightarrow> 'b completion) \<Rightarrow> 'b completion" where
  "andThen m f = (case m of Returns x \<Rightarrow> f x | ThrowsTypeError \<Rightarrow> ThrowsTypeError | NeverReturns \<Rightarrow> NeverReturns)"

definition fromLoop :: "'a option \<Rightarrow> 'a completion" where
  "fromLoop r = (case r of None \<Rightarrow> NeverReturns | Some x \<Rightarrow> Returns x)"

text \<open>
  \<open>a || b\<close> on optional strings, \<open>a || 'default'\<close>, and \<open>[..].filter(Boolean)\<close>.
\<close>

definition orElse :: "jsstring option \<Rightarrow> jsstring option \<Rightarrow> jsstring option" where
  "orElse a b = (if truthy a then a else b)"

definition orDefault :: "jsstring option \<Rightarrow> jsstring \<Rightarrow> jsstring" where
  "orDefault a b = (case a of None \<Rightarrow> b | Some s \<Rightarrow> if s = [] then b else s)"

definition filterBoolean :: "jsstring option list \<Rightarrow> jsstring list" where
  "filterBoolean xs = concat (map (\<lambda>x. case x of None \<Rightarrow> [] | Some s \<Rightarrow> if s = [] then [] else [s]) xs)"

text \<open>
  The receipt data and the totals, with the fields the function reads. A field the code
  tests or defaults is optional; numbers are rationals. \<open>addr.area?.label\<close> and
  \<open>note.author?.name\<close> are the fields \<open>areaLabel\<close> and \<open>authorName\<close>.
\<close>

record location =
  locBinNumber :: "jsstring option"
  locVatFormNumber :: "jsstring option"
  locAddress :: "jsstring option"
  locPhone :: "jsstring option"
  locEmail :: "jsstring option"

record postalAddress =
  addressLine :: "jsstring option"
  areaLabel :: "jsstring option"
  cityLabel :: "jsstring option"
  zipcode :: "jsstring option"
  country :: "jsstring option"

record customer =
  customerName :: "jsstring option"
  customerPhone :: "jsstring option"
  customerEmail :: "jsstring option"
  addresses :: "postalAddress list option"

record item =
  variantName :: "jsstring option"
  itemName :: "jsstring option"
  quantity :: rat
  unitPrice :: rat

record invoiceNote =
  visibleOnInvoice :: bool
  noteText :: "jsstring option"
  noteCreatedAt :: "jsstring option"
  authorName :: "jsstring option"

record receiptData =
  displayName :: "jsstring option"
  location :: "location option"
  binNumber :: "jsstring option"
  vatFormNumber :: "jsstring option"
  customDomain :: "jsstring option"
  invoiceNumber :: "jsstring option"
  createdAt :: "jsstring option"
  customer :: "customer option"
  items :: "item list"
  invoiceNotes :: "invoiceNote list option"

record charge =
  chargeLabel :: "jsstring option"
  applicationMethod :: "jsstring option"
  calculatedValue :: rat

record payment =
  paymentMethod :: jsstring
  amount :: rat
  paymentCreatedAt :: "jsstring option"
  user :: "jsstring option"

record totals =
  totalQuantity :: rat
  subtotal :: rat
  charges :: "charge list"
  grandTotal :: rat
  payments :: "payment list"
  totalPaid :: rat
  balanceDue :: rat

text \<open>
  What the function takes from its host and is left open here: \<open>CurrencyFormatted\<close> and
  the conversion of a Number to a string, which compute in double precision, and the
  date and time of a timestamp, which \<open>new Date\<close> reads in the local time zone. A theorem
  about \<open>buildThermalReceipt\<close> holds for whatever these four functions return.
\<close>

record host =
  CurrencyFormatted :: "rat \<Rightarrow> jsstring"
  numberString :: "rat \<Rightarrow> jsstring"
  dateString :: "jsstring \<Rightarrow> jsstring"
  timeString :: "jsstring \<Rightarrow> jsstring"

definition formatDate :: "host \<Rightarrow> jsstring option \<Rightarrow> jsstring" where
  "formatDate h date = (case date of None \<Rightarrow> [] | Some d \<Rightarrow> if d = [] then [] else dateString h d)"

definition formatTime :: "host \<Rightarrow> jsstring option \<Rightarrow> jsstring" where
  "formatTime h time = (case time of None \<Rightarrow> [] | Some t \<Rightarrow> if t = [] then [] else timeString h t)"

definition money :: "host \<Rightarrow> rat \<Rightarrow> jsstring" where
  "money h x = CommaFormatted (CurrencyFormatted h x)"

text \<open>
  The calls on the printer object, in the order they are made. A table cell is its text
  (\<open>undefined\<close> when \<open>wrappedLines[0]\<close> does not exist), alignment and width share.
\<close>

datatype align = LEFT | CENTER | RIGHT

datatype cell = Cell "jsstring option" align rat

datatype command =
    Bold bool | AlignCenter | AlignLeft | SetTextQuadArea | Invert bool | SetTextNormal
  | SetTextSize nat nat | Println jsstring | Print jsstring | NewLine | DrawLine
  | TableCustom "cell list" | SetTypeFontB | SetTypeFontA | Cut

definition organizationHeader :: "receiptData \<Rightarrow> command list" where
  "organizationHeader d =
     [Bold True, AlignCenter, SetTextQuadArea, Bold True,
      Println (orDefault (displayName d) (js ''Organization'')),
      Invert False, SetTextNormal, Bold True, SetTextSize 0 0]"

text \<open>
  The second \<open>println\<close> reads \<open>data.location.vatFormNumber\<close> without \<open>?.\<close>: it throws when
  \<open>data.location\<close> is absent.
\<close>

definition binAndVat :: "receiptData \<Rightarrow> command list completion" where
  "binAndVat d =
     (let locBin = (case location d of None \<Rightarrow> None | Some l \<Rightarrow> locBinNumber l);
          locVat = (case location d of None \<Rightarrow> None | Some l \<Rightarrow> locVatFormNumber l)
      in if truthy (orElse locBin (binNumber d))
         then (if truthy (orElse locVat (vatFormNumber d))
               then (case location d of
                       None \<Rightarrow> ThrowsTypeError
                     | Some l \<Rightarrow>
                         Returns [Println (js ''BIN: '' @ toStr (orElse locBin (binNumber d))),
                                  Println (js ''Mushak - '' @ toStr (orElse (locVatFormNumber l) (vatFormNumber d)))])
               else Returns [Println (js ''BIN: '' @ toStr (orElse locBin (binNumber d)))])
         else Returns [])"

definition addressLines :: "int \<Rightarrow> receiptData \<Rightarrow> command list completion" where
  "addressLines charWidth d =
     (case location d of
        None \<Rightarrow> Returns []
      | Some l \<Rightarrow>
          if truthy (locAddress l)
          then andThen (fromLoop (wrapText (toStr (locAddress l)) charWidth))
                 (\<lambda>wrapped. Returns (map Println wrapped))
          else Returns [])"

definition contactLine :: "receiptData \<Rightarrow> command list" where
  "contactLine d =
     (case location d of
        None \<Rightarrow> []
      | Some l \<Rightarrow>
          if truthy (locPhone l) \<or> truthy (locEmail l)
          then (if truthy (locPhone l)
                then Print (toStr (locPhone l)) # (if truthy (locEmail l) then [Print (js '', '')] else [])
                else [])
               @ (if truthy (locEmail l) then [Print (toStr (locEmail l))] else [])
               @ [NewLine]
          else [])"

definition customDomainLine :: "receiptData \<Rightarrow> command list" where
  "customDomainLine d = (if truthy (customDomain d) then [Println (toStr (customDomain d))] else [])"

definition invoiceInfo :: "host \<Rightarrow> int \<Rightarrow> receiptData \<Rightarrow> command list" where
  "invoiceInfo h charWidth d =
     [AlignLeft, DrawLine,
      Println (createTwoColumnLine (js ''INVOICE '' @ toStr (invoiceNumber d)) (formatDate h (createdAt d)) charWidth),
      Println (createTwoColumnLine [] (formatTime h (createdAt d)) charWidth)]"

definition customerAddress :: "customer \<Rightarrow> command list" where
  "customerAddress c =
     (case addresses c of
        None \<Rightarrow> []
      | Some [] \<Rightarrow> []
      | Some (addr # others) \<Rightarrow>
          (let addrParts = join (js '', '')
                 (filterBoolean [addressLine addr, areaLabel addr, cityLabel addr, zipcode addr, country addr])
           in if addrParts \<noteq> [] then [Println (js ''Address: '' @ addrParts)] else []))"

definition customerBlock :: "receiptData \<Rightarrow> command list" where
  "customerBlock d =
     (case customer d of
        None \<Rightarrow> []
      | Some c \<Rightarrow>
          [DrawLine, Println (js ''CUSTOMER'')]
          @ (if truthy (customerName c) then [Println (toStr (customerName c))] else [])
          @ (if truthy (customerPhone c) then [Println (js ''Phone: '' @ toStr (customerPhone c))] else [])
          @ (if truthy (customerEmail c) then [Println (js ''Email: '' @ toStr (customerEmail c))] else [])
          @ customerAddress c)"

definition itemsHeader :: "command list" where
  "itemsHeader =
     [DrawLine,
      TableCustom [Cell (Some (js ''Sl'')) LEFT (8 / 100), Cell (Some (js ''Item'')) LEFT (54 / 100),
                   Cell (Some (js ''Qty'')) CENTER (15 / 100), Cell (Some (js ''Price'')) RIGHT (23 / 100)],
      DrawLine]"

text \<open>
  One pass of \<open>data.items.forEach\<close>; \<open>Math.floor(charWidth * 0.54)\<close> is exact on integers.
\<close>

definition itemRows :: "host \<Rightarrow> int \<Rightarrow> nat \<Rightarrow> item \<Rightarrow> command list completion" where
  "itemRows h charWidth index it =
     (let name = join (js '' - '') (filterBoolean [variantName it, itemName it]);
          serialNum = numberToString (index + 1) @ js ''.'';
          itemColumnWidth = \<lfloor>of_int charWidth * (54 / 100 :: rat)\<rfloor>
      in andThen (fromLoop (wrapText name itemColumnWidth))
           (\<lambda>wrappedLines.
              Returns
                (TableCustom [Cell (Some serialNum) LEFT (8 / 100),
                              Cell (case wrappedLines of [] \<Rightarrow> None | l # ls \<Rightarrow> Some l) LEFT (54 / 100),
                              Cell (Some (numberString h (quantity it))) CENTER (15 / 100),
                              Cell (Some (money h (unitPrice it))) RIGHT (23 / 100)]
                 # map (\<lambda>l. TableCustom [Cell (Some []) LEFT (8 / 100), Cell (Some l) LEFT (54 / 100),
                                            Cell (Some []) CENTER (15 / 100), Cell (Some []) RIGHT (23 / 100)])
                     (tl wrappedLines))))"

fun itemsFrom :: "host \<Rightarrow> int \<Rightarrow> nat \<Rightarrow> item list \<Rightarrow> command list completion" where
  "itemsFrom h charWidth index [] = Returns []"
| "itemsFrom h charWidth index (it # rest) =
     andThen (itemRows h charWidth index it)
       (\<lambda>rows. andThen (itemsFrom h charWidth (index + 1) rest) (\<lambda>more. Returns (rows @ more)))"

definition chargeRow :: "host \<Rightarrow> int \<Rightarrow> charge \<Rightarrow> command" where
  "chargeRow h charWidth c =
     (let inclusiveText = (if applicationMethod c = Some (js ''INCLUSIVE'') then js '' (inc)'' else [])
      in Println (createTwoColumnLine (toStr (chargeLabel c) @ inclusiveText)
                    (money h \<bar>calculatedValue c\<bar>) charWidth))"

definition summarySection :: "host \<Rightarrow> int \<Rightarrow> totals \<Rightarrow> command list" where
  "summarySection h charWidth t =
     [DrawLine,
      Println (createTwoColumnLine (js ''Subtotal ('' @ numberString h (totalQuantity t) @ js '')'')
                 (money h (subtotal t)) charWidth)]
     @ map (chargeRow h charWidth) (charges t)
     @ [Println (createTwoColumnLine (js ''TOTAL'') (money h (grandTotal t)) charWidth)]"

definition paymentRows :: "host \<Rightarrow> int \<Rightarrow> payment \<Rightarrow> command list" where
  "paymentRows h charWidth p =
     Println (createTwoColumnLine (paymentMethod p) (money h (amount p)) charWidth)
     # (if truthy (paymentCreatedAt p)
        then (let paymentDate = formatDate h (paymentCreatedAt p) @ js '', '' @ formatTime h (paymentCreatedAt p)
              in [Println (js ''  '' @ paymentDate @ js '', '' @ orDefault (user p) (js ''Admin''))])
        else [])"

definition paymentsSection :: "host \<Rightarrow> int \<Rightarrow> totals \<Rightarrow> command list" where
  "paymentsSection h charWidth t =
     (if length (payments t) > 0
      then [DrawLine]
           @ concat (map (paymentRows h charWidth) (payments t))
           @ [DrawLine]
           @ (if totalPaid t > 0
              then [Println (createTwoColumnLine (js ''PAID'') (money h (totalPaid t)) charWidth)]
              else [])
           @ (if balanceDue t > 0
              then [Println (createTwoColumnLine (js ''DUE'') (money h (balanceDue t)) charWidth)]
              else [])
      else [])"

definition noteRows :: "host \<Rightarrow> invoiceNote \<Rightarrow> command list" where
  "noteRows h n =
     Println (js ''- '' @ toStr (noteText n))
     # (if truthy (noteCreatedAt n)
        then (let noteDate = formatDate h (noteCreatedAt n) @ js '', '' @ formatTime h (noteCreatedAt n)
              in [Println (js ''  '' @ noteDate @ js '', '' @ orDefault (authorName n) (js ''System''))])
        else [])"

definition notesSection :: "host \<Rightarrow> receiptData \<Rightarrow> command list" where
  "notesSection h d =
     (let visibleNotes = filter visibleOnInvoice (case invoiceNotes d of None \<Rightarrow> [] | Some ns \<Rightarrow> ns)
      in if length visibleNotes > 0
         then [NewLine, DrawLine, Println (js ''Notes:'')] @ concat (map (noteRows h) visibleNotes)
         else [])"

definition footer :: "command list" where
  "footer =
     [NewLine, AlignCenter, SetTextNormal, SetTypeFontB, Println (js ''Powered by ProSystem''),
      SetTypeFontA, Bold False, Cut]"

text \<open>
  The function is one sequence of statements. It is cut here in three: everything up to
  the TOTAL row, the payments block, and the notes and footer.
\<close>

definition receiptHead :: "host \<Rightarrow> int \<Rightarrow> receiptData \<Rightarrow> totals \<Rightarrow> command list completion" where
  "receiptHead h charWidth d t =
     andThen (binAndVat d) (\<lambda>bin.
     andThen (addressLines charWidth d) (\<lambda>addr.
     andThen (itemsFrom h charWidth 0 (items d)) (\<lambda>rows.
       Returns (organizationHeader d @ bin @ addr @ contactLine d @ customDomainLine d
                @ invoiceInfo h charWidth d @ customerBlock d @ itemsHeader @ rows
                @ summarySection h charWidth t))))"

definition receiptTail :: "host \<Rightarrow> receiptData \<Rightarrow> command list" where
  "receiptTail h d = notesSection h d @ footer"

definition buildThermalReceipt :: "host \<Rightarrow> int \<Rightarrow> receiptData \<Rightarrow> totals \<Rightarrow> command list completion" where
  "buildThermalReceipt h charWidth d t =
     andThen (receiptHead h charWidth d t)
       (\<lambda>head. Returns (head @ paymentsSection h charWidth t @ receiptTail h d))"

text \<open>
  Whether the printer is in bold after a sequence of calls that started in state \<open>b\<close>.
  \<open>setTextNormal\<close> is taken to switch bold off, as the source says where it re-enables
  bold after it. A \<open>plain\<close> call leaves the bold state alone.
\<close>

fun boldAfter :: "bool \<Rightarrow> command list \<Rightarrow> bool" where
  "boldAfter b [] = b"
| "boldAfter b (Bold x # cs) = boldAfter x cs"
| "boldAfter b (SetTextNormal # cs) = boldAfter False cs"
| "boldAfter b (c # cs) = boldAfter b cs"

fun plain :: "command \<Rightarrow> bool" where
  "plain (Bold x) = False"
| "plain SetTextNormal = False"
| "plain c = True"

subsection \<open>Example requests\<close>

definition epson :: "unit request" where
  "epson = HtmlJob \<lparr>printer = Some \<lparr>name = Some (js ''EPSON'')\<rparr>, html = Some (js ''<p>1</p>''),
                   widthMM = Some 80, heightMM = Some 200\<rparr>"

definition epsonThermal :: "unit request" where
  "epsonThermal = ThermalJob \<lparr>thermalPrinter = Some \<lparr>name = Some (js ''EPSON'')\<rparr>,
                   receiptData = Some (), receiptTotals = Some (), paperWidthMM = Some 80\<rparr>"

definition epsonPrint :: printRequest where
  "epsonPrint = \<lparr>printer = Some \<lparr>name = Some (js ''EPSON'')\<rparr>, html = Some (js ''<p>1</p>''),
                  widthMM = Some 80, heightMM = Some 200\<rparr>"

text \<open>
  A receipt for the examples, and a host that prints whole non-negative amounts and cuts
  an ISO timestamp into its date and time.
\<close>

definition wholeAmounts :: host where
  "wholeAmounts =
     \<lparr>CurrencyFormatted = (\<lambda>x. numberToString (nat \<lfloor>x\<rfloor>)),
      numberString = (\<lambda>x. numberToString (nat \<lfloor>x\<rfloor>)),
      dateString = take 10,
      timeString = drop 11\<rparr>"

definition teaReceipt :: receiptData where
  "teaReceipt =
     \<lparr>displayName = Some (js ''Lake Tea''),
      location = Some \<lparr>locBinNumber = None, locVatFormNumber = None,
                        locAddress = Some (js ''12 Lake Road''), locPhone = None, locEmail = None\<rparr>,
      binNumber = None, vatFormNumber = None, customDomain = None,
      invoiceNumber = Some (js ''A-17''), createdAt = Some (js ''2025-08-21T05:57:15''),
      customer = None,
      items = [\<lparr>variantName = None, itemName = Some (js ''Tea''), quantity = 2, unitPrice = 250\<rparr>],
      invoiceNotes = None\<rparr>"

definition teaTotals :: totals where
  "teaTotals =
     \<lparr>totalQuantity = 2, subtotal = 500, charges = [], grandTotal = 500,
      payments = [\<lparr>paymentMethod = js ''Cash'', amount = 500, paymentCreatedAt = None, user = None\<rparr>],
      totalPaid = 500, balanceDue = 0\<rparr>"

section \<open>Properties of the text layout\<close>

lemma substring_0: "substring s 0 n = take (nat n) s"
  by (simp add: substring_def Let_def min_def max_def)

lemma substringFrom_drop: "substringFrom s n = drop (nat n) s"
  by (simp add: substringFrom_def min_def max_def)

subsection \<open>createTwoColumnLine\<close>

text \<open>
  Claim C3, as the code has it. The line has exactly \<open>totalWidth\<close> code units whenever
  the right text is shorter than \<open>totalWidth\<close>: left text, padding spaces and right text
  when both fit with at least one space to spare, otherwise the left text cut to
  \<open>totalWidth - right.length - 1\<close> units, one space and the right text. The right text is
  never cut: when it alone has \<open>totalWidth\<close> units or more, the line is one space and the
  right text. \<open>createTwoColumnLine("TOTAL", "1,234", 20)\<close> is TOTAL, ten spaces, 1,234.
\<close>

theorem createTwoColumnLine_layout:
  "(int (length rightStr) < totalWidth \<longrightarrow>
      int (length (createTwoColumnLine leftStr rightStr totalWidth)) = totalWidth)
   \<and> (int (length leftStr) + int (length rightStr) < totalWidth \<longrightarrow>
      createTwoColumnLine leftStr rightStr totalWidth =
        leftStr @ replicate (nat (totalWidth - int (length leftStr) - int (length rightStr))) SPACE @ rightStr)
   \<and> (int (length leftStr) + int (length rightStr) \<ge> totalWidth \<longrightarrow>
      createTwoColumnLine leftStr rightStr totalWidth =
        take (nat (totalWidth - int (length rightStr) - 1)) leftStr @ [SPACE] @ rightStr)
   \<and> (int (length rightStr) \<ge> totalWidth \<longrightarrow>
      createTwoColumnLine leftStr rightStr totalWidth = SPACE # rightStr)
   \<and> createTwoColumnLine (js ''TOTAL'') (js ''1,234'') 20 =
        js ''TOTAL'' @ replicate 10 SPACE @ js ''1,234''"
  by (auto simp: createTwoColumnLine_def Let_def substring_0 js_def)

theorem createTwoColumnLine_layout_witness:
  "int (length (js ''1,500'')) < 32
   \<and> length (createTwoColumnLine (js ''Subtotal (3)'') (js ''1,500'') 32) = 32
   \<and> int (length (js ''Cash'')) + int (length (js ''20'')) < 8
   \<and> createTwoColumnLine (js ''Cash'') (js ''20'') 8 = js ''Cash  20''
   \<and> int (length (js ''Mobile banking'')) + int (length (js ''1,000'')) \<ge> 12
   \<and> createTwoColumnLine (js ''Mobile banking'') (js ''1,000'') 12 = js ''Mobile 1,000''
   \<and> int (length (js ''1,234,567'')) \<ge> 6
   \<and> createTwoColumnLine (js ''TOTAL'') (js ''1,234,567'') 6 = js '' 1,234,567''"
  using createTwoColumnLine_layout [where leftStr = "js ''Subtotal (3)''" and totalWidth = 32 and rightStr = "js ''1,500''"]
    createTwoColumnLine_layout [where leftStr = "js ''Cash''" and totalWidth = 8 and rightStr = "js ''20''"]
    createTwoColumnLine_layout [where leftStr = "js ''Mobile banking''" and totalWidth = 12 and rightStr = "js ''1,000''"]
    createTwoColumnLine_layout [where leftStr = "js ''TOTAL''" and totalWidth = 6 and rightStr = "js ''1,234,567''"]
  by (simp add: js_def eval_nat_numeral)

text \<open>
  Claim C3 as stated fails: a right text of five units in a line of width three gives six
  units, not three.
\<close>

theorem createTwoColumnLine_width_counterexample:
  "length (createTwoColumnLine (js ''ab'') (js ''12345'') 3) \<noteq> 3"
  by (simp add: createTwoColumnLine_def Let_def substring_0 js_def)

subsection \<open>wrapText: termination\<close>

lemma length_trim_le: "length (trim s) \<le> length s"
  unfolding trim_def
  by (metis length_dropWhile_le length_rev le_trans)

lemma lastIndexOf_less: "lastIndexOf s c < int (length s)"
  by (auto simp: lastIndexOf_def)

lemma breakPoint_le: "breakPoint maxWidth remaining \<le> maxWidth"
proof -
  have "lastIndexOf (take (nat maxWidth) remaining) SPACE < int (length (take (nat maxWidth) remaining))"
    by (rule lastIndexOf_less)
  then show ?thesis
    by (auto simp: breakPoint_def Let_def substring_0)
qed

lemma breakPoint_pos: "1 \<le> maxWidth \<Longrightarrow> 1 \<le> breakPoint maxWidth remaining"
  by (auto simp: breakPoint_def Let_def)

lemma remainder_shrinks:
  assumes "1 \<le> maxWidth" "maxWidth < int (length remaining)"
  shows "length (trim (substringFrom remaining (breakPoint maxWidth remaining))) < length remaining"
proof -
  have "1 \<le> breakPoint maxWidth remaining" using assms(1) by (rule breakPoint_pos)
  then have "length (drop (nat (breakPoint maxWidth remaining)) remaining) < length remaining"
    using assms by auto
  then show ?thesis
    using length_trim_le [of "drop (nat (breakPoint maxWidth remaining)) remaining"]
    by (simp add: substringFrom_drop)
qed

lemma wrapLoop_returns:
  "1 \<le> maxWidth \<Longrightarrow> \<exists>out. wrapLoop maxWidth remaining lines = Some out"
proof (induction "length remaining" arbitrary: remaining lines rule: less_induct)
  case less
  show ?case
  proof (cases "length remaining > 0 \<and> \<not> int (length remaining) \<le> maxWidth")
    case True
    then have "length (trim (substringFrom remaining (breakPoint maxWidth remaining))) < length remaining"
      using remainder_shrinks less.prems by simp
    from less.hyps [OF this less.prems] True show ?thesis
      by (subst wrapLoop.simps) simp
  next
    case False
    then show ?thesis by (subst wrapLoop.simps) auto
  qed
qed

text \<open>
  Claim C10. For every text and every \<open>maxWidth \<ge> 1\<close>, \<open>wrapText\<close> returns a list of
  lines, and each pass through the loop body leaves a strictly shorter remainder.
\<close>

theorem wrapText_terminates:
  "1 \<le> maxWidth \<Longrightarrow>
     (\<exists>lines. wrapText str maxWidth = Some lines)
     \<and> (maxWidth < int (length remaining) \<longrightarrow>
          length (trim (substringFrom remaining (breakPoint maxWidth remaining))) < length remaining)"
  using wrapLoop_returns [of maxWidth str "[]"] remainder_shrinks [of maxWidth remaining]
  by (auto simp: wrapText_def)

theorem wrapText_terminates_witness:
  "(1::int) \<le> 10
   \<and> (\<exists>lines. wrapText (js ''The quick brown fox'') 10 = Some lines)
   \<and> 10 < int (length (js ''The quick brown fox''))
   \<and> length (trim (substringFrom (js ''The quick brown fox'') (breakPoint 10 (js ''The quick brown fox''))))
       < length (js ''The quick brown fox'')"
  using wrapText_terminates [of 10 "js ''The quick brown fox''" "js ''The quick brown fox''"]
  by (simp add: js_def)

subsection \<open>wrapText: the lines\<close>

lemma wrapLoop_induct [consumes 2, case_names empty last step]:
  assumes w: "1 \<le> maxWidth" and run: "wrapLoop maxWidth remaining lines = Some out"
    and empty: "\<And>lines. P [] lines lines"
    and last: "\<And>remaining lines. remaining \<noteq> [] \<Longrightarrow> int (length remaining) \<le> maxWidth
                 \<Longrightarrow> P remaining lines (lines @ [remaining])"
    and step: "\<And>remaining lines out. maxWidth < int (length remaining)
                 \<Longrightarrow> P (trim (substringFrom remaining (breakPoint maxWidth remaining)))
                       (lines @ [trim (substring remaining 0 (breakPoint maxWidth remaining))]) out
                 \<Longrightarrow> P remaining lines out"
  shows "P remaining lines out"
  using run
proof (induction "length remaining" arbitrary: remaining lines rule: less_induct)
  case less
  show ?case
  proof (cases "remaining = []")
    case True
    with less.prems show ?thesis
      by (subst (asm) wrapLoop.simps) (simp add: empty)
  next
    case ne: False
    show ?thesis
    proof (cases "int (length remaining) \<le> maxWidth")
      case True
      with ne less.prems show ?thesis
        by (subst (asm) wrapLoop.simps) (auto simp: last)
    next
      case False
      then have big: "maxWidth < int (length remaining)" by simp
      have shorter: "length (trim (substringFrom remaining (breakPoint maxWidth remaining))) < length remaining"
        using remainder_shrinks [OF w big] .
      have "wrapLoop maxWidth (trim (substringFrom remaining (breakPoint maxWidth remaining)))
              (lines @ [trim (substring remaining 0 (breakPoint maxWidth remaining))]) = Some out"
        using less.prems ne False by (subst (asm) wrapLoop.simps) simp
      from less.hyps [OF shorter this] show ?thesis
        by (rule step [OF big])
    qed
  qed
qed

lemma wrapLoop_lines_bounded:
  assumes "1 \<le> maxWidth" "wrapLoop maxWidth remaining lines = Some out"
    "\<forall>l\<in>set lines. int (length l) \<le> maxWidth"
  shows "\<forall>l\<in>set out. int (length l) \<le> maxWidth"
  using assms
proof (induction rule: wrapLoop_induct)
  case (empty lines)
  then show ?case by simp
next
  case (last remaining lines)
  then show ?case by simp
next
  case (step remaining lines out)
  have "int (length (trim (substring remaining 0 (breakPoint maxWidth remaining)))) \<le> maxWidth"
    using length_trim_le [of "substring remaining 0 (breakPoint maxWidth remaining)"]
      breakPoint_le [of maxWidth remaining] assms(1)
    unfolding substring_0 by simp linarith
  with step show ?case by simp
qed

lemma filter_trim: "filter (\<lambda>c. \<not> isWhiteSpace c) (trim s) = filter (\<lambda>c. \<not> isWhiteSpace c) s"
proof -
  have a: "\<And>xs. filter (\<lambda>c. \<not> isWhiteSpace c) (dropWhile isWhiteSpace xs) = filter (\<lambda>c. \<not> isWhiteSpace c) xs"
    by (induct_tac xs) auto
  show ?thesis
    by (simp add: trim_def a flip: rev_filter)
qed

lemma wrapLoop_keeps_ink:
  assumes "1 \<le> maxWidth" "wrapLoop maxWidth remaining lines = Some out"
  shows "filter (\<lambda>c. \<not> isWhiteSpace c) (concat out)
         = filter (\<lambda>c. \<not> isWhiteSpace c) (concat lines @ remaining)"
  using assms
proof (induction rule: wrapLoop_induct)
  case (step remaining lines out)
  have "filter (\<lambda>c. \<not> isWhiteSpace c) (take (nat (breakPoint maxWidth remaining)) remaining)
        @ filter (\<lambda>c. \<not> isWhiteSpace c) (drop (nat (breakPoint maxWidth remaining)) remaining)
        = filter (\<lambda>c. \<not> isWhiteSpace c) remaining"
    by (simp flip: filter_append)
  with step show ?case
    by (simp add: filter_trim substring_0 substringFrom_drop)
qed simp_all

lemma join_Cons: "ts \<noteq> [] \<Longrightarrow> join sep (t # ts) = t @ sep @ join sep ts"
  by (cases ts) simp_all

lemma trim_Cons_ws: "isWhiteSpace c \<Longrightarrow> trim (c # s) = trim s"
  by (simp add: trim_def)

lemma dropWhile_id: "xs = [] \<or> \<not> P (hd xs) \<Longrightarrow> dropWhile P xs = xs"
  by (cases xs) auto

lemma trim_id: "s = [] \<or> (\<not> isWhiteSpace (hd s) \<and> \<not> isWhiteSpace (last s)) \<Longrightarrow> trim s = s"
proof -
  assume a: "s = [] \<or> (\<not> isWhiteSpace (hd s) \<and> \<not> isWhiteSpace (last s))"
  have 1: "dropWhile isWhiteSpace s = s" using a by (intro dropWhile_id) auto
  have 2: "dropWhile isWhiteSpace (rev s) = rev s"
    using a by (intro dropWhile_id) (auto simp: hd_rev)
  show ?thesis by (simp add: trim_def 1 2)
qed

lemma trim_unbroken: "\<forall>c\<in>set s. \<not> isWhiteSpace c \<Longrightarrow> trim s = s"
  by (rule trim_id) (cases s, auto)

lemma takeWhile_rev_less: "c \<in> set s \<Longrightarrow> length (takeWhile (\<lambda>x. x \<noteq> c) (rev s)) < length s"
proof -
  assume "c \<in> set s"
  then have "takeWhile (\<lambda>x. x \<noteq> c) (rev s) \<noteq> rev s"
    by (auto simp: takeWhile_eq_all_conv)
  moreover have "length (takeWhile (\<lambda>x. x \<noteq> c) (rev s)) \<le> length (rev s)"
    by (rule length_takeWhile_le)
  ultimately show ?thesis
    by (metis length_rev le_neq_implies_less takeWhile_eq_take take_all order_refl)
qed

lemma lastIndexOf_neg: "lastIndexOf s c < 0 \<Longrightarrow> c \<notin> set s"
  using takeWhile_rev_less [of c s] by (auto simp: lastIndexOf_def split: if_splits)

lemma lastIndexOf_nth:
  assumes "0 \<le> lastIndexOf s c"
  shows "s ! nat (lastIndexOf s c) = c"
proof -
  from assms have mem: "c \<in> set s" by (auto simp: lastIndexOf_def split: if_splits)
  let ?n = "length (takeWhile (\<lambda>x. x \<noteq> c) (rev s))"
  have lt: "?n < length (rev s)"
    using takeWhile_rev_less [OF mem] by simp
  then have "\<not> (rev s ! ?n \<noteq> c)" by (rule nth_length_takeWhile)
  then have "rev s ! ?n = c" by simp
  moreover have "rev s ! ?n = s ! (length s - Suc ?n)"
    using lt by (simp add: rev_nth)
  moreover have "nat (lastIndexOf s c) = length s - Suc ?n"
    using mem lt by (simp add: lastIndexOf_def)
  ultimately show ?thesis by simp
qed

lemma lastIndexOf_absent: "c \<notin> set s \<Longrightarrow> lastIndexOf s c = - 1"
  by (simp add: lastIndexOf_def)

lemma breakPoint_unbroken:
  assumes "\<forall>c\<in>set remaining. \<not> isWhiteSpace c"
  shows "breakPoint maxWidth remaining = maxWidth"
proof -
  have "isWhiteSpace SPACE" by (simp add: isWhiteSpace_def)
  with assms have "SPACE \<notin> set (take (nat maxWidth) remaining)"
    by (auto dest: in_set_takeD)
  then show ?thesis
    by (simp add: breakPoint_def Let_def substring_0 lastIndexOf_absent)
qed

lemma wrapLoop_unbroken:
  assumes "1 \<le> maxWidth" "wrapLoop maxWidth remaining lines = Some out"
    "\<forall>c\<in>set remaining. \<not> isWhiteSpace c"
  shows "\<exists>ls. out = lines @ ls \<and> concat ls = remaining
              \<and> (\<forall>l\<in>set (butlast ls). int (length l) = maxWidth)"
  using assms
proof (induction rule: wrapLoop_induct)
  case (empty lines)
  then show ?case by simp
next
  case (last remaining lines)
  then show ?case by simp
next
  case (step remaining lines out)
  let ?w = "nat maxWidth"
  have bp: "breakPoint maxWidth remaining = maxWidth"
    using step.prems by (rule breakPoint_unbroken)
  have inkH: "\<forall>c\<in>set (take ?w remaining). \<not> isWhiteSpace c"
    using step.prems by (auto dest: in_set_takeD)
  have inkT: "\<forall>c\<in>set (drop ?w remaining). \<not> isWhiteSpace c"
    using step.prems by (auto dest: in_set_dropD)
  have hdl: "trim (substring remaining 0 (breakPoint maxWidth remaining)) = take ?w remaining"
    using trim_unbroken [OF inkH] by (simp add: bp substring_0)
  have tl: "trim (substringFrom remaining (breakPoint maxWidth remaining)) = drop ?w remaining"
    using trim_unbroken [OF inkT] by (simp add: bp substringFrom_drop)
  note inkT
  with step.IH obtain ls where ls: "out = (lines @ [take ?w remaining]) @ ls"
      "concat ls = drop ?w remaining" "\<forall>l\<in>set (butlast ls). int (length l) = maxWidth"
    unfolding hdl tl by blast
  have len: "int (length (take ?w remaining)) = maxWidth"
    using step.hyps assms(1) by simp
  have "out = lines @ (take ?w remaining # ls)" using ls(1) by simp
  moreover have "concat (take ?w remaining # ls) = remaining" using ls(2) by simp
  moreover have "\<forall>l\<in>set (butlast (take ?w remaining # ls)). int (length l) = maxWidth"
    using ls(3) len by auto
  ultimately show ?case by blast
qed

lemma join_eq_Nil: "ts \<noteq> [] \<Longrightarrow> hd ts \<noteq> [] \<Longrightarrow> join sep ts \<noteq> []"
  by (induction sep ts rule: join.induct) auto

lemma join_last_Nil: "ts \<noteq> [] \<Longrightarrow> last ts \<noteq> [] \<Longrightarrow> join sep ts \<noteq> []"
  by (induction sep ts rule: join.induct) auto

lemma hd_join: "ts \<noteq> [] \<Longrightarrow> hd ts \<noteq> [] \<Longrightarrow> hd (join sep ts) = hd (hd ts)"
  by (induction sep ts rule: join.induct) auto

lemma last_join: "ts \<noteq> [] \<Longrightarrow> last ts \<noteq> [] \<Longrightarrow> last (join sep ts) = last (last ts)"
proof (induction sep ts rule: join.induct)
  case (3 sep x y ys)
  then have "join sep (y # ys) \<noteq> []"
    by (intro join_last_Nil) auto
  with 3 show ?case by simp
qed simp_all

lemma trim_join:
  assumes "\<forall>t\<in>set ts. t \<noteq> [] \<and> (\<forall>c\<in>set t. \<not> isWhiteSpace c)"
  shows "trim (join [SPACE] ts) = join [SPACE] ts"
proof (cases "ts = []")
  case True
  then show ?thesis by (simp add: trim_def)
next
  case False
  then have h: "hd ts \<in> set ts" and l: "last ts \<in> set ts" by simp_all
  from h assms have h': "hd ts \<noteq> []" "\<not> isWhiteSpace (hd (hd ts))" by auto
  from l assms have l': "last ts \<noteq> []" "\<not> isWhiteSpace (last (last ts))" by auto
  have "\<not> isWhiteSpace (hd (join [SPACE] ts))"
    using h' False by (simp add: hd_join)
  moreover have "\<not> isWhiteSpace (last (join [SPACE] ts))"
    using l' False by (simp add: last_join)
  ultimately show ?thesis by (intro trim_id) simp
qed

lemma space_ws: "isWhiteSpace SPACE"
  by (simp add: isWhiteSpace_def)

lemma join_boundary:
  assumes "\<forall>t\<in>set ts. SPACE \<notin> set t" "b < length (join [SPACE] ts)" "join [SPACE] ts ! b = SPACE"
  shows "\<exists>k. 0 < k \<and> k < length ts \<and> take b (join [SPACE] ts) = join [SPACE] (take k ts)
             \<and> drop b (join [SPACE] ts) = SPACE # join [SPACE] (drop k ts)"
  using assms
proof (induction ts arbitrary: b)
  case Nil
  then show ?case by simp
next
  case (Cons t ts)
  show ?case
  proof (cases "ts = []")
    case True
    with Cons.prems show ?thesis by (auto simp: in_set_conv_nth)
  next
    case False
    then have eq: "join [SPACE] (t # ts) = t @ SPACE # join [SPACE] ts"
      by (simp add: join_Cons)
    consider "b < length t" | "b = length t" | "length t < b" by linarith
    then show ?thesis
    proof cases
      case 1
      with Cons.prems eq have "t ! b = SPACE" by (simp add: nth_append)
      with 1 Cons.prems(1) show ?thesis by (auto simp: in_set_conv_nth)
    next
      case 2
      with eq False have "0 < (1::nat) \<and> 1 < length (t # ts) \<and> take b (join [SPACE] (t # ts)) = join [SPACE] (take 1 (t # ts))
         \<and> drop b (join [SPACE] (t # ts)) = SPACE # join [SPACE] (drop 1 (t # ts))"
        by (cases ts) simp_all
      then show ?thesis by blast
    next
      case 3
      define b' where "b' = b - Suc (length t)"
      have b: "b = Suc (length t) + b'" using 3 by (simp add: b'_def)
      have "b' < length (join [SPACE] ts)" using Cons.prems(2) eq b by simp
      moreover have "join [SPACE] ts ! b' = SPACE"
        using Cons.prems(3) eq b by (simp add: nth_append)
      moreover have "\<forall>t\<in>set ts. SPACE \<notin> set t" using Cons.prems(1) by simp
      ultimately obtain k where k: "0 < k" "k < length ts"
          "take b' (join [SPACE] ts) = join [SPACE] (take k ts)"
          "drop b' (join [SPACE] ts) = SPACE # join [SPACE] (drop k ts)"
        using Cons.IH by blast
      have tk: "take k ts \<noteq> []" using k(1,2) by (cases ts) auto
      have "take b (join [SPACE] (t # ts)) = join [SPACE] (take (Suc k) (t # ts))"
        using k(3) tk by (simp add: eq b join_Cons)
      moreover have "drop b (join [SPACE] (t # ts)) = SPACE # join [SPACE] (drop (Suc k) (t # ts))"
        using k(4) by (simp add: eq b)
      ultimately have "0 < Suc k \<and> Suc k < length (t # ts)
          \<and> take b (join [SPACE] (t # ts)) = join [SPACE] (take (Suc k) (t # ts))
          \<and> drop b (join [SPACE] (t # ts)) = SPACE # join [SPACE] (drop (Suc k) (t # ts))"
        using k(2) by simp
      then show ?thesis by blast
    qed
  qed
qed

lemma break_at_space:
  assumes w: "1 \<le> maxWidth"
    and good: "\<forall>t\<in>set ts. t \<noteq> [] \<and> int (length t) \<le> maxWidth \<and> (\<forall>c\<in>set t. \<not> isWhiteSpace c)"
    and big: "maxWidth < int (length (join [SPACE] ts))"
  shows "nat (breakPoint maxWidth (join [SPACE] ts)) < length (join [SPACE] ts)
         \<and> join [SPACE] ts ! nat (breakPoint maxWidth (join [SPACE] ts)) = SPACE"
proof -
  let ?r = "join [SPACE] ts"
  let ?s = "take (nat maxWidth) ?r"
  let ?i = "lastIndexOf ?s SPACE"
  have lens: "length ?s = nat maxWidth" using big by simp
  show ?thesis
  proof (cases "?i > 0")
    case True
    then have bp: "breakPoint maxWidth ?r = ?i"
      by (simp add: breakPoint_def Let_def substring_0)
    have lt: "nat ?i < nat maxWidth"
      using lastIndexOf_less [of ?s SPACE] True lens by linarith
    have "?s ! nat ?i = SPACE" using True by (intro lastIndexOf_nth) simp
    then have "?r ! nat ?i = SPACE" using lt by simp
    moreover have "length ?s \<le> length ?r" by simp
    then have "nat ?i < length ?r" using lt lens by linarith
    ultimately show ?thesis by (simp add: bp)
  next
    case False
    then have bp: "breakPoint maxWidth ?r = maxWidth"
      by (simp add: breakPoint_def Let_def substring_0)
    from big w obtain t ts' where ts: "ts = t # ts'" by (cases ts) auto
    from good ts have t: "t \<noteq> []" "int (length t) \<le> maxWidth" "\<forall>c\<in>set t. \<not> isWhiteSpace c"
      by auto
    have ts': "ts' \<noteq> []" using big t(2) ts by (cases ts') auto
    have r: "?r = t @ SPACE # join [SPACE] ts'" using ts ts' by (simp add: join_Cons)
    have "hd t \<in> set t" using t(1) by simp
    then have "hd t \<noteq> SPACE" using t(3) space_ws by auto
    then have r0: "?r ! 0 \<noteq> SPACE" using r t(1) by (simp add: nth_append hd_conv_nth)
    have "?i \<noteq> 0"
    proof
      assume z: "?i = 0"
      then have "?s ! nat ?i = SPACE" by (intro lastIndexOf_nth) simp
      with z have "?s ! 0 = SPACE" by simp
      moreover have "?s ! 0 = ?r ! 0" using w by simp
      ultimately show False using r0 by simp
    qed
    with False have "?i < 0" by linarith
    then have absent: "SPACE \<notin> set ?s" by (rule lastIndexOf_neg)
    have "\<not> length t < nat maxWidth"
    proof
      assume l: "length t < nat maxWidth"
      then have "?s ! length t = ?r ! length t" by simp
      also have "\<dots> = SPACE" by (simp add: r)
      finally have "?s ! length t = SPACE" .
      moreover have "length t < length ?s" using l lens by simp
      ultimately have "SPACE \<in> set ?s" by (metis nth_mem)
      with absent show False by simp
    qed
    with t(2) have "nat maxWidth = length t" by linarith
    then have "?r ! nat maxWidth = SPACE" by (simp add: r)
    moreover have "nat maxWidth < length ?r" using big w by (simp add: nat_less_iff)
    ultimately show ?thesis by (simp add: bp)
  qed
qed

lemma wrapLoop_rejoin:
  assumes "1 \<le> maxWidth" "wrapLoop maxWidth remaining lines = Some out"
  shows "\<forall>ts. remaining = join [SPACE] ts
              \<and> (\<forall>t\<in>set ts. t \<noteq> [] \<and> int (length t) \<le> maxWidth \<and> (\<forall>c\<in>set t. \<not> isWhiteSpace c))
           \<longrightarrow> (\<exists>ls. out = lines @ ls \<and> join [SPACE] ls = remaining \<and> (remaining \<noteq> [] \<longrightarrow> ls \<noteq> []))"
  using assms
proof (induction rule: wrapLoop_induct)
  case (empty lines)
  then show ?case by auto
next
  case (last remaining lines)
  then show ?case by auto
next
  case (step remaining lines out)
  show ?case
  proof (intro allI impI, elim conjE)
    fix ts
    assume eq: "remaining = join [SPACE] ts"
      and good: "\<forall>t\<in>set ts. t \<noteq> [] \<and> int (length t) \<le> maxWidth \<and> (\<forall>c\<in>set t. \<not> isWhiteSpace c)"
    let ?b = "nat (breakPoint maxWidth remaining)"
    have big: "maxWidth < int (length (join [SPACE] ts))" using step.hyps eq by simp
    have brk: "?b < length remaining" "remaining ! ?b = SPACE"
      using break_at_space [OF assms(1) good big] eq by simp_all
    have nosp: "\<forall>t\<in>set ts. SPACE \<notin> set t" using good space_ws by auto
    obtain k where k: "0 < k" "k < length ts"
        "take ?b remaining = join [SPACE] (take k ts)"
        "drop ?b remaining = SPACE # join [SPACE] (drop k ts)"
      using join_boundary [OF nosp] brk eq by blast
    have goodT: "\<forall>t\<in>set (take k ts). t \<noteq> [] \<and> (\<forall>c\<in>set t. \<not> isWhiteSpace c)"
      using good by (auto dest: in_set_takeD)
    have goodD: "\<forall>t\<in>set (drop k ts). t \<noteq> [] \<and> int (length t) \<le> maxWidth \<and> (\<forall>c\<in>set t. \<not> isWhiteSpace c)"
      using good by (auto dest: in_set_dropD)
    then have goodD': "\<forall>t\<in>set (drop k ts). t \<noteq> [] \<and> (\<forall>c\<in>set t. \<not> isWhiteSpace c)" by blast
    have line: "trim (substring remaining 0 (breakPoint maxWidth remaining)) = join [SPACE] (take k ts)"
      using trim_join [OF goodT] by (simp add: substring_0 k(3))
    have rest: "trim (substringFrom remaining (breakPoint maxWidth remaining)) = join [SPACE] (drop k ts)"
      using trim_join [OF goodD'] by (simp add: substringFrom_drop k(4) trim_Cons_ws space_ws)
    have dne: "drop k ts \<noteq> []" using k(2) by simp
    then have "hd (drop k ts) \<in> set (drop k ts)" by simp
    with goodD have "hd (drop k ts) \<noteq> []" by blast
    with dne have rne: "join [SPACE] (drop k ts) \<noteq> []" by (rule join_eq_Nil)
    from step.IH [unfolded line rest] goodD rne
    obtain ls where ls: "out = (lines @ [join [SPACE] (take k ts)]) @ ls"
        "join [SPACE] ls = join [SPACE] (drop k ts)" "ls \<noteq> []"
      by blast
    have "join [SPACE] (join [SPACE] (take k ts) # ls) = take ?b remaining @ drop ?b remaining"
      using ls(2,3) k(3,4) by (simp add: join_Cons)
    then have "join [SPACE] (join [SPACE] (take k ts) # ls) = remaining" by simp
    moreover have "out = lines @ (join [SPACE] (take k ts) # ls)" using ls(1) by simp
    ultimately show "\<exists>ls. out = lines @ ls \<and> join [SPACE] ls = remaining \<and> (remaining \<noteq> [] \<longrightarrow> ls \<noteq> [])"
      by blast
  qed
qed

lemma unbroken_cut_length:
  assumes "1 \<le> maxWidth" "maxWidth < int (length remaining)"
    "\<forall>c\<in>set (substring remaining 0 maxWidth). \<not> isWhiteSpace c"
  shows "int (length (trim (substring remaining 0 (breakPoint maxWidth remaining)))) = maxWidth"
proof -
  have "SPACE \<notin> set (take (nat maxWidth) remaining)"
    using assms(3) space_ws by (auto simp: substring_0)
  then have bp: "breakPoint maxWidth remaining = maxWidth"
    by (simp add: breakPoint_def Let_def substring_0 lastIndexOf_absent)
  have "trim (take (nat maxWidth) remaining) = take (nat maxWidth) remaining"
    using assms(3) by (intro trim_unbroken) (simp add: substring_0)
  then show ?thesis using assms(1,2) by (simp add: bp substring_0)
qed

text \<open>
  Claim C4, as the code has it, for \<open>maxWidth \<ge> 1\<close>. Every returned line has at most
  \<open>maxWidth\<close> code units, and the lines hold the non-whitespace code units of the text in
  their order. When the text has no whitespace at all, the lines are its consecutive
  slices: they concatenate to the text and all but the last have exactly \<open>maxWidth\<close>
  units. When the text is single-space-normalized (non-empty whitespace-free tokens joined
  by single spaces) and no token is longer than \<open>maxWidth\<close>, joining the lines with single
  spaces gives the text back (trimming changes nothing then). In any pass of the loop, a
  line cut from a remainder whose first \<open>maxWidth\<close> units hold no whitespace has exactly
  \<open>maxWidth\<close> units.
\<close>

theorem wrapText_lines:
  assumes "1 \<le> maxWidth" and "wrapText s maxWidth = Some lines"
  shows "(\<forall>l\<in>set lines. int (length l) \<le> maxWidth)
       \<and> filter (\<lambda>c. \<not> isWhiteSpace c) (concat lines) = filter (\<lambda>c. \<not> isWhiteSpace c) s
       \<and> ((\<forall>c\<in>set s. \<not> isWhiteSpace c) \<longrightarrow>
            concat lines = s \<and> (\<forall>l\<in>set (butlast lines). int (length l) = maxWidth))
       \<and> (\<forall>ts. s = join [SPACE] ts
                \<and> (\<forall>t\<in>set ts. t \<noteq> [] \<and> int (length t) \<le> maxWidth \<and> (\<forall>c\<in>set t. \<not> isWhiteSpace c))
             \<longrightarrow> join [SPACE] lines = s \<and> trim (join [SPACE] lines) = s)
       \<and> (maxWidth < int (length remaining)
            \<and> (\<forall>c\<in>set (substring remaining 0 maxWidth). \<not> isWhiteSpace c) \<longrightarrow>
          int (length (trim (substring remaining 0 (breakPoint maxWidth remaining)))) = maxWidth)"
proof (cases "int (length s) \<le> maxWidth")
  case True
  have e: "maxWidth < int (length remaining)
            \<and> (\<forall>c\<in>set (substring remaining 0 maxWidth). \<not> isWhiteSpace c) \<longrightarrow>
          int (length (trim (substring remaining 0 (breakPoint maxWidth remaining)))) = maxWidth"
    using unbroken_cut_length [OF assms(1)] by blast
  from True assms(2) have l: "lines = [s]" by (simp add: wrapText_def)
  have "\<And>ts. \<forall>t\<in>set ts. t \<noteq> [] \<and> int (length t) \<le> maxWidth \<and> (\<forall>c\<in>set t. \<not> isWhiteSpace c)
          \<Longrightarrow> trim (join [SPACE] ts) = join [SPACE] ts"
    by (rule trim_join) blast
  then have "\<forall>ts. s = join [SPACE] ts
                \<and> (\<forall>t\<in>set ts. t \<noteq> [] \<and> int (length t) \<le> maxWidth \<and> (\<forall>c\<in>set t. \<not> isWhiteSpace c))
             \<longrightarrow> join [SPACE] [s] = s \<and> trim (join [SPACE] [s]) = s"
    by simp
  moreover have "\<forall>l\<in>set [s]. int (length l) \<le> maxWidth" using True by simp
  moreover have "concat [s] = s \<and> (\<forall>l\<in>set (butlast [s]). int (length l) = maxWidth)" by simp
  moreover have "filter (\<lambda>c. \<not> isWhiteSpace c) (concat [s]) = filter (\<lambda>c. \<not> isWhiteSpace c) s" by simp
  ultimately show ?thesis unfolding l using e by blast
next
  case False
  have e: "maxWidth < int (length remaining)
            \<and> (\<forall>c\<in>set (substring remaining 0 maxWidth). \<not> isWhiteSpace c) \<longrightarrow>
          int (length (trim (substring remaining 0 (breakPoint maxWidth remaining)))) = maxWidth"
    using unbroken_cut_length [OF assms(1)] by blast
  from False assms(2) have run: "wrapLoop maxWidth s [] = Some lines" by (simp add: wrapText_def)
  have a: "\<forall>l\<in>set lines. int (length l) \<le> maxWidth"
    using wrapLoop_lines_bounded [OF assms(1) run] by simp
  have b: "filter (\<lambda>c. \<not> isWhiteSpace c) (concat lines) = filter (\<lambda>c. \<not> isWhiteSpace c) s"
    using wrapLoop_keeps_ink [OF assms(1) run] by simp
  have c: "(\<forall>c\<in>set s. \<not> isWhiteSpace c) \<longrightarrow>
            concat lines = s \<and> (\<forall>l\<in>set (butlast lines). int (length l) = maxWidth)"
    using wrapLoop_unbroken [OF assms(1) run] by auto
  have d: "join [SPACE] lines = s \<and> trim (join [SPACE] lines) = s"
    if "s = join [SPACE] ts"
      "\<forall>t\<in>set ts. t \<noteq> [] \<and> int (length t) \<le> maxWidth \<and> (\<forall>c\<in>set t. \<not> isWhiteSpace c)" for ts
  proof -
    have "join [SPACE] lines = s"
      using wrapLoop_rejoin [OF assms(1) run] that by auto
    moreover have "trim (join [SPACE] ts) = join [SPACE] ts"
      using that(2) by (intro trim_join) blast
    ultimately show ?thesis using that(1) by simp
  qed
  from a b c d e show ?thesis by blast
qed

theorem wrapText_lines_witness:
  "(1::int) \<le> 10
   \<and> wrapText (js ''The quick brown fox'') 10 = Some [js ''The quick'', js ''brown fox'']
   \<and> int (length (js ''The quick'')) \<le> 10 \<and> int (length (js ''brown fox'')) \<le> 10
   \<and> js ''The quick brown fox'' = join [SPACE] [js ''The'', js ''quick'', js ''brown'', js ''fox'']
   \<and> list_all (\<lambda>t. t \<noteq> [] \<and> int (length t) \<le> 10 \<and> list_all (\<lambda>c. \<not> isWhiteSpace c) t)
         [js ''The'', js ''quick'', js ''brown'', js ''fox'']
   \<and> join [SPACE] [js ''The quick'', js ''brown fox''] = js ''The quick brown fox''
   \<and> 10 < int (length (js ''abcdefghijkl''))
   \<and> list_all (\<lambda>c. \<not> isWhiteSpace c) (substring (js ''abcdefghijkl'') 0 10)
   \<and> int (length (trim (substring (js ''abcdefghijkl'') 0 (breakPoint 10 (js ''abcdefghijkl''))))) = 10"
proof -
  have run: "wrapText (js ''The quick brown fox'') 10 = Some [js ''The quick'', js ''brown fox'']"
    by code_simp
  have toks: "js ''The quick brown fox'' = join [SPACE] [js ''The'', js ''quick'', js ''brown'', js ''fox'']"
    by (simp add: js_def)
  have good: "\<forall>t\<in>set [js ''The'', js ''quick'', js ''brown'', js ''fox''].
         t \<noteq> [] \<and> int (length t) \<le> 10 \<and> (\<forall>c\<in>set t. \<not> isWhiteSpace c)"
    by (simp add: js_def isWhiteSpace_def)
  then have good': "list_all (\<lambda>t. t \<noteq> [] \<and> int (length t) \<le> 10 \<and> list_all (\<lambda>c. \<not> isWhiteSpace c) t)
         [js ''The'', js ''quick'', js ''brown'', js ''fox'']"
    by (simp only: list_all_iff)
  have long: "10 < int (length (js ''abcdefghijkl''))" by (simp add: js_def)
  have ink: "\<forall>c\<in>set (substring (js ''abcdefghijkl'') 0 10). \<not> isWhiteSpace c"
    by (simp add: js_def substring_0 isWhiteSpace_def)
  then have ink': "list_all (\<lambda>c. \<not> isWhiteSpace c) (substring (js ''abcdefghijkl'') 0 10)"
    by (simp only: list_all_iff)
  have one: "(1::int) \<le> 10" by simp
  note inst = wrapText_lines [OF one run, where remaining = "js ''abcdefghijkl''"]
  have "\<forall>l\<in>set [js ''The quick'', js ''brown fox'']. int (length l) \<le> 10"
    using inst by (rule conjunct1)
  then have a: "int (length (js ''The quick'')) \<le> 10" "int (length (js ''brown fox'')) \<le> 10"
    by simp_all
  have "\<forall>ts. js ''The quick brown fox'' = join [SPACE] ts
                \<and> (\<forall>t\<in>set ts. t \<noteq> [] \<and> int (length t) \<le> 10 \<and> (\<forall>c\<in>set t. \<not> isWhiteSpace c))
             \<longrightarrow> join [SPACE] [js ''The quick'', js ''brown fox''] = js ''The quick brown fox''
                 \<and> trim (join [SPACE] [js ''The quick'', js ''brown fox'']) = js ''The quick brown fox''"
    using inst [THEN conjunct2, THEN conjunct2, THEN conjunct2, THEN conjunct1] .
  then have b: "join [SPACE] [js ''The quick'', js ''brown fox''] = js ''The quick brown fox''"
    using toks good by (elim allE [where x = "[js ''The'', js ''quick'', js ''brown'', js ''fox'']"] impE conjE) (rule conjI)
  have c: "int (length (trim (substring (js ''abcdefghijkl'') 0 (breakPoint 10 (js ''abcdefghijkl''))))) = 10"
    using inst [THEN conjunct2, THEN conjunct2, THEN conjunct2, THEN conjunct2] long ink by (elim impE) (rule conjI)
  show ?thesis
    by (intro conjI one run a toks good' b long ink' c)
qed

text \<open>
  Claim C4 as stated fails twice. A token longer than the width is cut inside, so joining
  the lines with spaces puts a space into the word; and a line cut where no space break
  point exists is shorter than the width when the cut piece starts with whitespace.
\<close>

theorem wrapText_rejoin_counterexample:
  "wrapText (js ''abcdefgh'') 4 = Some [js ''abcd'', js ''efgh'']
   \<and> trim (join [SPACE] [js ''abcd'', js ''efgh'']) \<noteq> js ''abcdefgh''
   \<and> wrapText (js '' abcdefgh'') 4 = Some [js ''abc'', js ''defg'', js ''h'']
   \<and> lastIndexOf (substring (js '' abcdefgh'') 0 4) SPACE = 0
   \<and> breakPoint 4 (js '' abcdefgh'') = 4
   \<and> length (js ''abc'') \<noteq> 4"
  by code_simp

text \<open>
  The bound \<open>maxWidth \<ge> 1\<close> is needed: with width 0 the loop keeps a remainder that has
  no outer whitespace unchanged, and never returns.
\<close>

lemma wrapLoop_zero_width:
  "wrapLoop maxWidth remaining lines = Some out \<Longrightarrow>
     maxWidth = 0 \<longrightarrow> remaining = [] \<or> isWhiteSpace (hd remaining) \<or> isWhiteSpace (last remaining)"
proof (induction rule: wrapLoop.raw_induct [rotated 1, consumes 1])
  case (1 wrapLoop' maxWidth remaining lines out)
  show ?case
  proof (intro impI)
    assume z: "maxWidth = 0"
    show "remaining = [] \<or> isWhiteSpace (hd remaining) \<or> isWhiteSpace (last remaining)"
    proof (rule ccontr)
      assume n: "\<not> (remaining = [] \<or> isWhiteSpace (hd remaining) \<or> isWhiteSpace (last remaining))"
      then have t: "trim remaining = remaining" by (intro trim_id) simp
      have "breakPoint 0 remaining = 0" by (simp add: breakPoint_def Let_def substring_0 lastIndexOf_def)
      with 1(2) z n t have "wrapLoop' 0 remaining (lines @ [trim (substring remaining 0 0)]) = Some out"
        by (simp add: substringFrom_drop split: if_splits)
      from 1(1) [OF this] n show False by simp
    qed
  qed
qed

lemma wrapText_zero_width_never_returns: "wrapText (js ''a'') 0 = None"
proof (cases "wrapText (js ''a'') 0")
  case (Some out)
  then have "wrapLoop 0 (js ''a'') [] = Some out" by (simp add: wrapText_def js_def)
  from wrapLoop_zero_width [OF this] show ?thesis by (simp add: js_def isWhiteSpace_def)
qed simp

section \<open>Character width\<close>




section \<open>Thousands separators\<close>

lemmas CommaFormatted_eval = CommaFormatted_def parseInt_def js_def isWhiteSpace_def isDigit_def isHexDigit_def
  digitsValue_def digitValue_def stripDot00_def substring_def substringFrom_def Let_def

lemma CommaFormatted_examples:
  "CommaFormatted (js ''1234567'') = js ''1,234,567''"
  "CommaFormatted (js ''1234567.00'') = js ''1,234,567''"
  "CommaFormatted (js ''abc'') = []"
  "CommaFormatted (js ''-1234.5'') = js ''-1,234.5''"
  by (simp_all add: CommaFormatted_eval)

text \<open>
  Claim C6 says a leading minus sign is preserved. The sign is taken from the parsed
  integer part, so it is lost when that part is \<open>-0\<close>: \<open>CommaFormatted("-0.5")\<close> is
  \<open>"0.5"\<close>.
\<close>

theorem CommaFormatted_minus_zero:
  "CommaFormatted (js ''-0.5'') = js ''0.5''"
  by (simp add: CommaFormatted_eval)

section \<open>The /print callback\<close>

lemma step_asSuccess: "printEventStep p (asSuccess e) = printEventStep p e"
  by (cases e) (simp_all add: asSuccess_def)

lemma foldl_asSuccess: "foldl printEventStep p (map asSuccess es) = foldl printEventStep p es"
  by (induction es arbitrary: p) (simp_all add: step_asSuccess)

lemma settled_stays: "outcome p = Some v \<Longrightarrow> outcome (foldl printEventStep p es) = Some v"
proof (induction es arbitrary: p)
  case (Cons e es)
  have "outcome (printEventStep p e) = Some v"
    using Cons.prems by (cases e) (simp_all add: settle_def Let_def)
  then show ?case using Cons.IH by simp
qed simp

lemma awaitPrint_callback_first: "awaitPrint (PrintCallback success # es) = Some Resolved"
  unfolding awaitPrint_def
  by (simp add: settled_stays settle_def Let_def)

lemma awaitPrint_timer_first: "awaitPrint (TimerFires # es) = Some (Rejected (js ''Print operation timed out after 30 seconds''))"
  unfolding awaitPrint_def
  by (simp add: settled_stays settle_def Let_def)

text \<open>
  Claim C9. For a /print request that passes validation, a native print callback that
  reports failure makes the endpoint respond 204. No response depends on a success flag:
  turning every reported failure into a success leaves the response unchanged. The
  endpoint answers 500 after the print was started only when the 30 second timer fired
  before any callback.
\<close>

theorem print_callback_failure_is_success:
  assumes "printer req = Some p" "truthy (name p)"
  shows "printHandler req (Printing (PrintCallback False # es)) = Some (Status 204)
       \<and> printHandler req (Printing (map asSuccess events)) = printHandler req (Printing events)
       \<and> (printHandler req (Printing events) = Some (Status 500) \<longrightarrow> (\<exists>rest. events = TimerFires # rest))"
proof -
  have a: "printHandler req (Printing (PrintCallback False # es)) = Some (Status 204)"
    using assms by (simp add: printHandler_def awaitPrint_callback_first)
  have b: "printHandler req (Printing (map asSuccess events)) = printHandler req (Printing events)"
    using assms by (simp add: printHandler_def awaitPrint_def foldl_asSuccess)
  have c: "printHandler req (Printing events) = Some (Status 500) \<longrightarrow> (\<exists>rest. events = TimerFires # rest)"
  proof (cases events)
    case Nil
    then show ?thesis using assms by (simp add: printHandler_def awaitPrint_def)
  next
    case (Cons e rest)
    then show ?thesis using assms
      by (cases e) (simp_all add: printHandler_def awaitPrint_callback_first)
  qed
  from a b c show ?thesis by blast
qed

theorem print_callback_failure_is_success_witness:
  "printer epsonPrint = Some \<lparr>name = Some (js ''EPSON'')\<rparr>
   \<and> truthy (name \<lparr>name = Some (js ''EPSON'')\<rparr>)
   \<and> printHandler epsonPrint (Printing [PrintCallback False, PrintCallback False]) = Some (Status 204)
   \<and> printHandler epsonPrint (Printing [TimerFires, PrintCallback False]) = Some (Status 500)
   \<and> printHandler epsonPrint (Printing [TimerFires, PrintCallback True]) = Some (Status 500)"
proof -
  have p: "printer epsonPrint = Some \<lparr>name = Some (js ''EPSON'')\<rparr>"
    by (simp add: epsonPrint_def)
  have t: "truthy (name \<lparr>name = Some (js ''EPSON'')\<rparr>)"
    by (simp add: truthy_def js_def)
  note inst = print_callback_failure_is_success [OF p t]
  have a: "printHandler epsonPrint (Printing [PrintCallback False, PrintCallback False]) = Some (Status 204)"
    using inst [of "[PrintCallback False]"] by (rule conjunct1)
  have c: "printHandler epsonPrint (Printing [TimerFires, PrintCallback True]) = Some (Status 500)"
    using p t by (simp add: printHandler_def awaitPrint_timer_first)
  have "printHandler epsonPrint (Printing (map asSuccess [TimerFires, PrintCallback False]))
        = printHandler epsonPrint (Printing [TimerFires, PrintCallback False])"
    using inst [of _ "[TimerFires, PrintCallback False]"] by blast
  then have b: "printHandler epsonPrint (Printing [TimerFires, PrintCallback False]) = Some (Status 500)"
    using c by (simp add: asSuccess_def)
  from p t a b c show ?thesis by blast
qed

lemma printHandler_never_busy: "printHandler req run \<noteq> Some (Status 409)"
  by (auto simp: printHandler_def split: option.splits printRun.splits settled.splits)


section \<open>The job registry\<close>

lemma jobKey_nonempty: "jobKeyOf n now \<noteq> []"
  by (simp add: jobKeyOf_def)

lemma admitJob_Admitted: "admitJob n now jobs = (Admitted n' k, jobs') \<Longrightarrow> k \<noteq> [] \<and> n' = n \<and> jobs n = None \<and> jobs' = jobs(n \<mapsto> k)"
  by (auto simp: admitJob_def Let_def jobKey_nonempty split: if_splits)

lemma admit_Admitted:
  "admit req now jobs = (Admitted n k, jobs') \<Longrightarrow> k \<noteq> [] \<and> n = target req \<and> jobs n = None \<and> jobs' = jobs(n \<mapsto> k)"
  by (cases req)
     (auto simp: printAdmit_def thermalAdmit_def split: option.splits if_splits dest!: admitJob_Admitted)

lemma admit_Refused: "admit req now jobs = (Refused r, jobs') \<Longrightarrow> jobs' = jobs"
  by (cases req)
     (auto simp: printAdmit_def thermalAdmit_def admitJob_def Let_def split: option.splits if_splits)

lemma distinct_fst_remove1: "distinct (map fst xs) \<Longrightarrow> distinct (map fst (remove1 x xs))"
  by (induction xs) (auto dest: notin_set_remove1 simp: image_iff)

lemma distinct_fst_unique:
  "distinct (map fst xs) \<Longrightarrow> (n, k) \<in> set xs \<Longrightarrow> (n, k') \<in> set xs \<Longrightarrow> k = k'"
  by (induction xs) (auto simp: image_iff)

lemma serve_consistent:
  assumes "consistent s" "keyed s"
  shows "consistent (serve s e) \<and> keyed (serve s e)"
proof (cases e)
  case (Arrives req now)
  show ?thesis
  proof (cases "admit req now (activePrintJobs s)")
    case (Pair a jobs)
    show ?thesis
    proof (cases a)
      case (Refused r)
      with Pair Arrives assms admit_Refused [of req now "activePrintJobs s" r jobs]
      show ?thesis by (simp add: consistent_def keyed_def)
    next
      case (Admitted n k)
      with Pair have "admit req now (activePrintJobs s) = (Admitted n k, jobs)" by simp
      from admit_Admitted [OF this]
      have adm: "k \<noteq> []" "activePrintJobs s n = None" "jobs = (activePrintJobs s)(n \<mapsto> k)"
        by blast+
      have fresh: "\<forall>k'. (n, k') \<notin> set (inFlight s)"
        using assms(1) adm(2) unfolding consistent_def by (metis option.distinct(1))
      then have "n \<notin> fst ` set (inFlight s)" by auto
      with fresh Pair Arrives Admitted adm assms show ?thesis
        by (auto simp: consistent_def keyed_def)
    qed
  qed
next
  case (Completes n k ok)
  show ?thesis
  proof (cases "(n, k) \<in> set (inFlight s)")
    case False
    with Completes assms show ?thesis by simp
  next
    case True
    with assms have k: "k \<noteq> []" "activePrintJobs s n = Some k"
      by (auto simp: consistent_def keyed_def)
    have d: "distinct (map fst (inFlight s))" using assms(1) by (simp add: consistent_def)
    have rel: "snd (completeJob n k ok (activePrintJobs s)) = (activePrintJobs s)(n := None)"
      using k by (simp add: completeJob_def releaseJob_def)
    have uniq: "\<And>k'. (n, k') \<in> set (inFlight s) \<Longrightarrow> k' = k"
      using distinct_fst_unique [OF d _ True] by blast
    have dist: "distinct (inFlight s)" using d by (simp add: distinct_map)
    have mem: "\<And>m j. (m, j) \<in> set (remove1 (n, k) (inFlight s)) \<longleftrightarrow> (m, j) \<in> set (inFlight s) \<and> (m, j) \<noteq> (n, k)"
      using dist by auto
    have c1: "distinct (map fst (remove1 (n, k) (inFlight s)))"
      using d by (rule distinct_fst_remove1)
    have c2: "\<forall>m j. ((activePrintJobs s)(n := None)) m = Some j \<longleftrightarrow> (m, j) \<in> set (remove1 (n, k) (inFlight s))"
      using assms(1) uniq by (auto simp: mem consistent_def)
    have c3: "\<forall>(m, j)\<in>set (remove1 (n, k) (inFlight s)). j \<noteq> []"
      using assms(2) by (auto simp: keyed_def dest: notin_set_remove1)
    from c1 c2 c3 Completes True show ?thesis
      by (simp add: consistent_def keyed_def rel)
  qed
qed

lemma startup_consistent: "consistent startup \<and> keyed startup"
  by (simp add: consistent_def keyed_def startup_def)

lemma reachable_consistent: "consistent (foldl serve startup evs) \<and> keyed (foldl serve startup evs)"
proof (induction evs rule: rev_induct)
  case Nil
  show ?case using startup_consistent by simp
next
  case (snoc e evs)
  then show ?case using serve_consistent [of "foldl serve startup evs" e] by simp
qed

lemma admit_wellFormed:
  "wellFormed req \<Longrightarrow> admit req now jobs = admitJob (target req) now jobs"
  by (cases req) (auto simp: printAdmit_def thermalAdmit_def split: option.splits)

lemma consistent_busy:
  "consistent s \<Longrightarrow> (n \<in> fst ` set (inFlight s)) = (activePrintJobs s n \<noteq> None)"
  unfolding consistent_def by force

text \<open>
  Claim C1, for the revision that has the registry. After any sequence of arrivals and
  completions, no two suspended handlers hold the same printer name. A well-formed request,
  HTML or thermal, is refused with 409 and changes nothing when a job for its printer is in
  flight, and is admitted otherwise. When a job in flight completes, with success or
  failure, its printer has no job in flight, so the next request for it is admitted.
\<close>

theorem one_job_per_printer:
  "distinct (map fst (inFlight (foldl serve startup evs)))
   \<and> (wellFormed req \<and> target req \<in> fst ` set (inFlight (foldl serve startup evs)) \<longrightarrow>
        admit req now (activePrintJobs (foldl serve startup evs))
          = (Refused (Status 409), activePrintJobs (foldl serve startup evs)))
   \<and> (wellFormed req \<and> target req \<notin> fst ` set (inFlight (foldl serve startup evs)) \<longrightarrow>
        admit req now (activePrintJobs (foldl serve startup evs))
          = (Admitted (target req) (jobKeyOf (target req) now),
             (activePrintJobs (foldl serve startup evs))(target req \<mapsto> jobKeyOf (target req) now)))
   \<and> ((n, k) \<in> set (inFlight (foldl serve startup evs)) \<longrightarrow>
        n \<notin> fst ` set (inFlight (serve (foldl serve startup evs) (Completes n k succeeded))))"
proof -
  let ?s = "foldl serve startup evs"
  have c: "consistent ?s" "keyed ?s" using reachable_consistent [of evs] by simp_all
  have c': "consistent (serve ?s (Completes n k succeeded))"
    using serve_consistent [OF c, of "Completes n k succeeded"] by (rule conjunct1)
  have 1: "distinct (map fst (inFlight ?s))" using c(1) by (simp add: consistent_def)
  have 2: "admit req now (activePrintJobs ?s) = (Refused (Status 409), activePrintJobs ?s)"
    if "wellFormed req" "target req \<in> fst ` set (inFlight ?s)"
    using that consistent_busy [OF c(1), of "target req"]
    by (simp add: admit_wellFormed admitJob_def Let_def)
  have 3: "admit req now (activePrintJobs ?s)
          = (Admitted (target req) (jobKeyOf (target req) now),
             (activePrintJobs ?s)(target req \<mapsto> jobKeyOf (target req) now))"
    if "wellFormed req" "target req \<notin> fst ` set (inFlight ?s)"
    using that consistent_busy [OF c(1), of "target req"]
    by (simp add: admit_wellFormed admitJob_def Let_def)
  have 4: "n \<notin> fst ` set (inFlight (serve ?s (Completes n k succeeded)))"
    if m: "(n, k) \<in> set (inFlight ?s)"
  proof -
    have "k \<noteq> []" "activePrintJobs ?s n = Some k"
      using c m by (auto simp: consistent_def keyed_def)
    then have "activePrintJobs (serve ?s (Completes n k succeeded)) n = None"
      using m by (simp add: completeJob_def releaseJob_def)
    then show ?thesis using consistent_busy [OF c', of n] by simp
  qed
  from 1 2 3 4 show ?thesis by blast
qed

theorem one_job_per_printer_witness:
  "wellFormed epsonThermal \<and> target epsonThermal = Some (js ''EPSON'')
   \<and> inFlight (foldl serve startup [Arrives epson 1000]) = [(Some (js ''EPSON''), js ''EPSON-1000'')]
   \<and> admit epsonThermal 1001 (activePrintJobs (foldl serve startup [Arrives epson 1000]))
        = (Refused (Status 409), activePrintJobs (foldl serve startup [Arrives epson 1000]))
   \<and> inFlight (foldl serve startup [Arrives epson 1000, Completes (Some (js ''EPSON'')) (js ''EPSON-1000'') False]) = []
   \<and> fst (admit epsonThermal 1002 (activePrintJobs (foldl serve startup
              [Arrives epson 1000, Completes (Some (js ''EPSON'')) (js ''EPSON-1000'') False])))
        = Admitted (Some (js ''EPSON'')) (js ''EPSON-1002'')"
proof -
  have wf: "wellFormed epsonThermal" "target epsonThermal = Some (js ''EPSON'')"
    by (simp_all add: epsonThermal_def)
  have k0: "jobKeyOf (Some (js ''EPSON'')) 1000 = js ''EPSON-1000''"
    "jobKeyOf (Some (js ''EPSON'')) 1002 = js ''EPSON-1002''"
    by (simp_all add: jobKeyOf_def toStr_def js_def)
  have s1: "inFlight (foldl serve startup [Arrives epson 1000 :: unit event]) = [(Some (js ''EPSON''), js ''EPSON-1000'')]"
    by (simp add: startup_def epson_def printAdmit_def admitJob_def truthy_def Let_def k0) (simp add: js_def)
  have s2: "inFlight (foldl serve startup [Arrives epson 1000 :: unit event, Completes (Some (js ''EPSON'')) (js ''EPSON-1000'') False]) = []"
    using s1 by simp
  have busy: "admit epsonThermal 1001 (activePrintJobs (foldl serve startup [Arrives epson 1000]))
        = (Refused (Status 409), activePrintJobs (foldl serve startup [Arrives epson 1000]))"
    using one_job_per_printer [of "[Arrives epson 1000]" epsonThermal 1001] wf s1 by simp
  have free: "fst (admit epsonThermal 1002 (activePrintJobs (foldl serve startup
              [Arrives epson 1000, Completes (Some (js ''EPSON'')) (js ''EPSON-1000'') False])))
        = Admitted (Some (js ''EPSON'')) (js ''EPSON-1002'')"
    using one_job_per_printer [of "[Arrives epson 1000, Completes (Some (js ''EPSON'')) (js ''EPSON-1000'') False]" epsonThermal 1002]
      wf s2 k0 by simp
  from wf s1 s2 busy free show ?thesis by blast
qed

section \<open>Startup\<close>

lemma startApi_bounded:
  "length (filter isPortsChecked (fst (startApi os webContents n w))) \<le> max 1 (MAX_STARTUP_ATTEMPTS - n)
   \<and> (\<forall>d. RetryAfter d \<in> set (fst (startApi os webContents n w)) \<longrightarrow> d = 3000)"
proof (induction os webContents n w rule: startApi.induct)
  case (1 os webContents n w)
  obtain b w1 where e: "ensurePortsAvailable os [21321, 21322] w = (b, w1)"
    by (cases "ensurePortsAvailable os [21321, 21322] w")
  obtain out w2 where s: "startServices os w1 = (out, w2)"
    by (cases "startServices os w1")
  show ?case
  proof (cases "n + 1 < MAX_STARTUP_ATTEMPTS")
    case last: False
    show ?thesis
      using e s last
      by (subst (1 2) startApi.simps) (cases b; cases out; simp)
  next
    case more: True
    show ?thesis
    proof (cases b)
      case False
      obtain evs fin where r: "startApi os webContents (n + 1) w1 = (evs, fin)"
        by (cases "startApi os webContents (n + 1) w1")
      from False have bF: "b = False" by simp
      note "1.IH"(3) [OF e [symmetric] bF more]
      with r have ih: "length (filter isPortsChecked evs) \<le> max 1 (MAX_STARTUP_ATTEMPTS - (n + 1))"
          "\<forall>d. RetryAfter d \<in> set evs \<longrightarrow> d = 3000" by simp_all
      have "startApi os webContents n w = (PortsChecked False # RetryAfter 3000 # evs, fin)"
        using e False more r by (subst startApi.simps) simp
      with ih more show ?thesis by (auto simp: MAX_STARTUP_ATTEMPTS_def)
    next
      case True
      obtain evs fin where r: "startApi os webContents (n + 1) w2 = (evs, fin)"
        by (cases "startApi os webContents (n + 1) w2")
      show ?thesis
      proof (cases "out = AddressInUse \<or> (\<exists>m. out = Throws m)")
        case quiet: False
        then show ?thesis
          using e s True by (subst (1 2) startApi.simps) (cases out; simp)
      next
        case again: True
        from True have bT: "b = True" by simp
        have "length (filter isPortsChecked (fst (startApi os webContents (n + 1) w2)))
                \<le> max 1 (MAX_STARTUP_ATTEMPTS - (n + 1))
              \<and> (\<forall>d. RetryAfter d \<in> set (fst (startApi os webContents (n + 1) w2)) \<longrightarrow> d = 3000)"
          using again "1.IH"(1) [OF e [symmetric] bT s [symmetric] _ more]
            "1.IH"(2) [OF e [symmetric] bT s [symmetric] _ more] by blast
        with r have ih: "length (filter isPortsChecked evs) \<le> max 1 (MAX_STARTUP_ATTEMPTS - (n + 1))"
          "\<forall>d. RetryAfter d \<in> set evs \<longrightarrow> d = 3000" by simp_all
        have "startApi os webContents n w = (PortsChecked True # RetryAfter 3000 # evs, fin)"
          using e s True more r again by (subst startApi.simps) auto
        with ih more show ?thesis by (auto simp: MAX_STARTUP_ATTEMPTS_def)
      qed
    qed
  qed
qed

lemma startApi_unreclaimable_last:
  assumes "\<And>w. fst (ensurePortsAvailable os [21321, 21322] w) = False"
  shows "fst (startApi os webContents 2 w) =
           PortsChecked False #
             (if webContents
              then [StartupFailed (js ''Ports 21321 and 21322 are occupied and cannot be freed'')]
              else [])"
proof -
  obtain w1 where "ensurePortsAvailable os [21321, 21322] w = (False, w1)"
    using assms [of w] by (cases "ensurePortsAvailable os [21321, 21322] w") auto
  then show ?thesis
    by (subst startApi.simps) (simp add: MAX_STARTUP_ATTEMPTS_def)
qed

lemma startApi_unreclaimable_retry:
  assumes "\<And>w. fst (ensurePortsAvailable os [21321, 21322] w) = False" "n + 1 < MAX_STARTUP_ATTEMPTS"
  shows "\<exists>w1. fst (startApi os webContents n w) =
           PortsChecked False # RetryAfter 3000 # fst (startApi os webContents (n + 1) w1)"
proof -
  obtain w1 where "ensurePortsAvailable os [21321, 21322] w = (False, w1)"
    using assms(1) [of w] by (cases "ensurePortsAvailable os [21321, 21322] w") auto
  then have "fst (startApi os webContents n w) =
           PortsChecked False # RetryAfter 3000 # fst (startApi os webContents (n + 1) w1)"
    using assms(2) by (subst startApi.simps) (simp split: prod.splits)
  then show ?thesis by blast
qed

lemma startApi_unreclaimable:
  assumes "\<And>w. fst (ensurePortsAvailable os [21321, 21322] w) = False"
  shows "fst (startApi os webContents 0 w) =
           [PortsChecked False, RetryAfter 3000, PortsChecked False, RetryAfter 3000, PortsChecked False]
           @ (if webContents
              then [StartupFailed (js ''Ports 21321 and 21322 are occupied and cannot be freed'')]
              else [])"
proof -
  have m0: "(0::nat) + 1 < MAX_STARTUP_ATTEMPTS" and m1: "(1::nat) + 1 < MAX_STARTUP_ATTEMPTS"
    by (simp_all add: MAX_STARTUP_ATTEMPTS_def)
  from startApi_unreclaimable_retry [OF assms m0]
  obtain w1 where 1: "fst (startApi os webContents 0 w) =
      PortsChecked False # RetryAfter 3000 # fst (startApi os webContents (0 + 1) w1)"
    by blast
  from startApi_unreclaimable_retry [OF assms m1]
  obtain w2 where 2: "fst (startApi os webContents 1 w1) =
      PortsChecked False # RetryAfter 3000 # fst (startApi os webContents (1 + 1) w2)"
    by blast
  have n: "(0::nat) + 1 = 1" "(1::nat) + 1 = 2" by simp_all
  show ?thesis
    unfolding 1 n 2 startApi_unreclaimable_last [OF assms] by simp
qed

lemma startApi_first_event:
  "\<exists>b rest. fst (startApi os webContents n w) = PortsChecked b # rest"
  by (subst startApi.simps)
     (auto split: prod.splits serviceOutcome.splits bool.splits)

lemma startApi_failed_check_reported:
  "last (filter isPortsChecked (fst (startApi os True n w))) = PortsChecked False \<Longrightarrow>
   last (fst (startApi os True n w)) =
     StartupFailed (js ''Ports 21321 and 21322 are occupied and cannot be freed'')"
proof (induction os "True" n w rule: startApi.induct)
  case (1 os n w)
  obtain b w1 where e: "ensurePortsAvailable os [21321, 21322] w = (b, w1)"
    by (cases "ensurePortsAvailable os [21321, 21322] w")
  obtain out w2 where s: "startServices os w1 = (out, w2)"
    by (cases "startServices os w1")
  have tail: "last (filter isPortsChecked (PortsChecked c # RetryAfter 3000 # fst (startApi os True (n + 1) w')))
                = last (filter isPortsChecked (fst (startApi os True (n + 1) w')))
            \<and> last (PortsChecked c # RetryAfter 3000 # fst (startApi os True (n + 1) w'))
                = last (fst (startApi os True (n + 1) w'))" for c w'
    using startApi_first_event [of os True "n + 1" w'] by auto
  show ?case
  proof (cases "n + 1 < MAX_STARTUP_ATTEMPTS")
    case last: False
    show ?thesis
      using e s last "1.prems"
      by (subst startApi.simps, subst (asm) startApi.simps) (cases b; cases out; simp)
  next
    case more: True
    show ?thesis
    proof (cases b)
      case False
      then have bF: "b = False" by simp
      have eq: "fst (startApi os True n w) = PortsChecked False # RetryAfter 3000 # fst (startApi os True (n + 1) w1)"
        using e False more by (subst startApi.simps) (simp split: prod.splits)
      have "last (filter isPortsChecked (fst (startApi os True (n + 1) w1))) = PortsChecked False"
        using "1.prems" unfolding eq using tail [of False w1] by simp
      from "1.hyps"(3) [OF e [symmetric] bF more this]
      show ?thesis unfolding eq using tail [of False w1] by simp
    next
      case True
      then have bT: "b = True" by simp
      show ?thesis
      proof (cases "out = AddressInUse \<or> (\<exists>m. out = Throws m)")
        case quiet: False
        then show ?thesis
          using e s True "1.prems" by (subst (asm) startApi.simps) (cases out; simp)
      next
        case again: True
        have eq: "fst (startApi os True n w) = PortsChecked True # RetryAfter 3000 # fst (startApi os True (n + 1) w2)"
          using e s True more again by (subst startApi.simps) (auto split: prod.splits)
        have p: "last (filter isPortsChecked (fst (startApi os True (n + 1) w2))) = PortsChecked False"
          using "1.prems" unfolding eq using tail [of True w2] by simp
        have "last (fst (startApi os True (n + 1) w2)) =
                StartupFailed (js ''Ports 21321 and 21322 are occupied and cannot be freed'')"
          using again "1.hyps"(1) [OF e [symmetric] bT s [symmetric] _ more p]
            "1.hyps"(2) [OF e [symmetric] bT s [symmetric] _ more p] by blast
        then show ?thesis unfolding eq using tail [of True w2] by simp
      qed
    qed
  qed
qed

text \<open>
  Claim C8. Whatever the operating system does, a startup from a fresh counter checks the
  ports at most three times (from counter \<open>n\<close>, at most \<open>max 1 (3 - n)\<close> times), and
  every retry waits 3000 ms. \<open>startApi\<close> is a total function: it always ends. When the
  ports cannot be freed at any attempt, the run is three failed checks with two waits
  between them, and then the startup failure is reported to the shell. In every run whose
  last port check fails, the last event is that report.
\<close>

theorem startApi_three_attempts:
  "length (filter isPortsChecked (fst (startApi os webContents 0 w))) \<le> 3
   \<and> length (filter isPortsChecked (fst (startApi os webContents n w))) \<le> max 1 (MAX_STARTUP_ATTEMPTS - n)
   \<and> (\<forall>d. RetryAfter d \<in> set (fst (startApi os webContents n w)) \<longrightarrow> d = 3000)
   \<and> ((\<forall>w'. fst (ensurePortsAvailable os [21321, 21322] w') = False) \<longrightarrow>
        fst (startApi os True 0 w) =
          [PortsChecked False, RetryAfter 3000, PortsChecked False, RetryAfter 3000, PortsChecked False,
           StartupFailed (js ''Ports 21321 and 21322 are occupied and cannot be freed'')])
   \<and> (last (filter isPortsChecked (fst (startApi os True n w))) = PortsChecked False \<longrightarrow>
        last (fst (startApi os True n w)) =
          StartupFailed (js ''Ports 21321 and 21322 are occupied and cannot be freed''))"
proof -
  have a: "length (filter isPortsChecked (fst (startApi os webContents 0 w))) \<le> 3"
    using startApi_bounded [of os webContents 0 w] by (simp add: MAX_STARTUP_ATTEMPTS_def)
  have b: "length (filter isPortsChecked (fst (startApi os webContents n w))) \<le> max 1 (MAX_STARTUP_ATTEMPTS - n)"
    "\<forall>d. RetryAfter d \<in> set (fst (startApi os webContents n w)) \<longrightarrow> d = 3000"
    using startApi_bounded [of os webContents n w] by blast+
  have c: "fst (startApi os True 0 w) =
          [PortsChecked False, RetryAfter 3000, PortsChecked False, RetryAfter 3000, PortsChecked False,
           StartupFailed (js ''Ports 21321 and 21322 are occupied and cannot be freed'')]"
    if "\<forall>w'. fst (ensurePortsAvailable os [21321, 21322] w') = False"
    using startApi_unreclaimable [of os True w] that by simp
  have d: "last (filter isPortsChecked (fst (startApi os True n w))) = PortsChecked False \<longrightarrow>
        last (fst (startApi os True n w)) =
          StartupFailed (js ''Ports 21321 and 21322 are occupied and cannot be freed'')"
    using startApi_failed_check_reported [of os n w] by blast
  from a b c d show ?thesis by blast
qed

lemma stuckPorts_attempt:
  "ensurePortsAvailable stuckPorts [21321, 21322] calls =
     (False, calls @ [Probe 21321, Graceful 21321, Kill 21321, Probe 21321])"
  by (simp add: ensurePortsAvailable.simps stuckPorts_def)

theorem startApi_three_attempts_witness:
  "fst (ensurePortsAvailable stuckPorts [21321, 21322] []) = False
   \<and> fst (startApi stuckPorts True 0 []) =
          [PortsChecked False, RetryAfter 3000, PortsChecked False, RetryAfter 3000, PortsChecked False,
           StartupFailed (js ''Ports 21321 and 21322 are occupied and cannot be freed'')]
   \<and> length (filter isPortsChecked (fst (startApi stuckPorts True 0 []))) = 3"
proof -
  have h: "\<forall>w'. fst (ensurePortsAvailable stuckPorts [21321, 21322] w') = False"
    by (simp add: stuckPorts_attempt)
  have t: "fst (startApi stuckPorts True 0 []) =
          [PortsChecked False, RetryAfter 3000, PortsChecked False, RetryAfter 3000, PortsChecked False,
           StartupFailed (js ''Ports 21321 and 21322 are occupied and cannot be freed'')]"
    using startApi_three_attempts [of stuckPorts True "[]" 0] h by blast
  show ?thesis using h t by simp
qed

lemma stuckPorts_calls:
  "snd (snd (startApi stuckPorts True 0 [])) =
     [Probe 21321, Graceful 21321, Kill 21321, Probe 21321,
      Probe 21321, Graceful 21321, Kill 21321, Probe 21321,
      Probe 21321, Graceful 21321, Kill 21321, Probe 21321]"
  by (simp add: startApi.simps [of stuckPorts] stuckPorts_attempt MAX_STARTUP_ATTEMPTS_def)

text \<open>
  The bound also ends a run whose ports pass the check and are in use again at \<open>listen\<close>;
  that path of the source stops without a report.
\<close>

lemma busyAtListen_attempt:
  "ensurePortsAvailable busyAtListen [21321, 21322] u = (True, u)"
  "startServices busyAtListen u = (AddressInUse, u)"
  by (simp_all add: ensurePortsAvailable.simps busyAtListen_def)

lemma startApi_listen_error_silent:
  "fst (startApi busyAtListen True 0 ()) =
     [PortsChecked True, RetryAfter 3000, PortsChecked True, RetryAfter 3000, PortsChecked True]"
  by (simp add: startApi.simps [of busyAtListen] busyAtListen_attempt MAX_STARTUP_ATTEMPTS_def)

section \<open>The payments block of the receipt\<close>

lemma boldAfter_append: "boldAfter b (xs @ ys) = boldAfter (boldAfter b xs) ys"
  by (induction b xs rule: boldAfter.induct) simp_all

lemma boldAfter_plain: "list_all plain xs \<Longrightarrow> boldAfter b xs = b"
  by (induction b xs rule: boldAfter.induct) simp_all

lemma andThen_Returns:
  "andThen m f = Returns y \<longleftrightarrow> (\<exists>x. m = Returns x \<and> f x = Returns y)"
  by (cases m) (simp_all add: andThen_def)

lemma plain_binAndVat: "binAndVat d = Returns cs \<Longrightarrow> list_all plain cs"
  by (auto simp: binAndVat_def Let_def split: if_splits option.splits)

lemma plain_addressLines: "addressLines w d = Returns cs \<Longrightarrow> list_all plain cs"
  by (auto simp: addressLines_def andThen_Returns list_all_iff split: if_splits option.splits)

lemma plain_contactLine: "list_all plain (contactLine d)"
  by (simp add: contactLine_def split: option.splits)

lemma plain_customDomainLine: "list_all plain (customDomainLine d)"
  by (simp add: customDomainLine_def)

lemma plain_invoiceInfo: "list_all plain (invoiceInfo h w d)"
  by (simp add: invoiceInfo_def)

lemma plain_customerBlock: "list_all plain (customerBlock d)"
  by (simp add: customerBlock_def customerAddress_def Let_def split: option.splits list.splits)

lemma plain_itemsHeader: "list_all plain itemsHeader"
  by (simp add: itemsHeader_def)

lemma plain_itemRows: "itemRows h w i it = Returns cs \<Longrightarrow> list_all plain cs"
  by (auto simp: itemRows_def Let_def andThen_Returns list_all_iff)

lemma plain_itemsFrom: "itemsFrom h w i its = Returns cs \<Longrightarrow> list_all plain cs"
proof (induction its arbitrary: i cs)
  case Nil
  then show ?case by simp
next
  case (Cons it its)
  then show ?case
    by (auto simp: andThen_Returns dest: plain_itemRows)
qed

lemma plain_summarySection: "list_all plain (summarySection h w t)"
  by (simp add: summarySection_def chargeRow_def Let_def list_all_iff)

lemma plain_paymentsSection: "list_all plain (paymentsSection h w t)"
  by (auto simp: paymentsSection_def paymentRows_def Let_def list_all_iff)

lemma bold_organizationHeader: "boldAfter b (organizationHeader d) = True"
  by (simp add: organizationHeader_def)

lemma bold_receiptHead:
  assumes "receiptHead h w d t = Returns head"
  shows "boldAfter b head = True"
proof -
  from assms obtain bin addr rows where
    parts: "binAndVat d = Returns bin" "addressLines w d = Returns addr"
      "itemsFrom h w 0 (items d) = Returns rows"
    and head: "head = organizationHeader d @ (bin @ addr @ contactLine d @ customDomainLine d
                @ invoiceInfo h w d @ customerBlock d @ itemsHeader @ rows
                @ summarySection h w t)"
    by (auto simp: receiptHead_def andThen_Returns)
  define rest where "rest = bin @ addr @ contactLine d @ customDomainLine d
                @ invoiceInfo h w d @ customerBlock d @ itemsHeader @ rows
                @ summarySection h w t"
  have "list_all plain rest"
    unfolding rest_def
    using plain_binAndVat [OF parts(1)] plain_addressLines [OF parts(2)] plain_itemsFrom [OF parts(3)]
      plain_contactLine plain_customDomainLine plain_invoiceInfo plain_customerBlock
      plain_itemsHeader plain_summarySection
    by simp
  then have "boldAfter True rest = True" by (rule boldAfter_plain)
  moreover have "head = organizationHeader d @ rest" using head by (simp add: rest_def)
  ultimately show ?thesis
    by (simp only: boldAfter_append bold_organizationHeader)
qed

lemma head_ignores_payments:
  "receiptHead h w d (t\<lparr>payments := ps, totalPaid := paid, balanceDue := due\<rparr>) = receiptHead h w d t"
  by (simp add: receiptHead_def summarySection_def)

lemma wrapText_returns: "1 \<le> maxWidth \<Longrightarrow> \<exists>ls. wrapText s maxWidth = Some ls"
  using wrapLoop_returns [of maxWidth s "[]"] by (auto simp: wrapText_def)

lemma itemsFrom_returns:
  "1 \<le> \<lfloor>of_int w * (54 / 100 :: rat)\<rfloor> \<Longrightarrow> \<exists>rows. itemsFrom h w i its = Returns rows"
proof (induction its arbitrary: i)
  case Nil
  show ?case by simp
next
  case (Cons it its)
  obtain ls where "wrapText (join (js '' - '') (filterBoolean [variantName it, itemName it]))
                     \<lfloor>of_int w * (54 / 100 :: rat)\<rfloor> = Some ls"
    using wrapText_returns [OF Cons.prems] by blast
  then obtain rows where r: "itemRows h w i it = Returns rows"
    by (simp add: itemRows_def Let_def andThen_def fromLoop_def)
  obtain more where "itemsFrom h w (i + 1) its = Returns more"
    using Cons.IH [OF Cons.prems] by blast
  with r show ?case by (simp add: andThen_def)
qed

lemma receipt_returns:
  assumes "2 \<le> w" "location d \<noteq> None"
  shows "\<exists>out. buildThermalReceipt h w d t = Returns out"
proof -
  obtain l where l: "location d = Some l" using assms(2) by auto
  have "\<exists>bin. binAndVat d = Returns bin"
    by (simp add: binAndVat_def l Let_def)
  moreover have "\<exists>addr. addressLines w d = Returns addr"
  proof (cases "truthy (locAddress l)")
    case True
    obtain ls where "wrapText (toStr (locAddress l)) w = Some ls"
      using wrapText_returns [of w] assms(1) by force
    with True show ?thesis by (simp add: addressLines_def l andThen_def fromLoop_def)
  next
    case False
    then show ?thesis by (simp add: addressLines_def l)
  qed
  moreover have "1 \<le> \<lfloor>of_int w * (54 / 100 :: rat)\<rfloor>"
  proof -
    have "(1::rat) \<le> of_int w * (54 / 100)" using assms(1) by simp
    then show ?thesis by (simp add: le_floor_iff)
  qed
  then have "\<exists>rows. itemsFrom h w 0 (items d) = Returns rows" by (rule itemsFrom_returns)
  ultimately show ?thesis
    by (auto simp: buildThermalReceipt_def receiptHead_def andThen_def)
qed

text \<open>
  Claim C2. A receipt that is built is the part up to the TOTAL row, then the payments
  block, then notes and footer; the first part does not depend on the payments, the total
  paid or the balance due, and the last does not read the totals. The payments block is
  empty when there are no payments. Otherwise it is a separator, the rows of each payment,
  a separator, the PAID row exactly when the total paid is above zero, and the DUE row
  exactly when the balance due is above zero. The printer is in bold when the block starts
  and when it ends, and nothing in the block changes that.
\<close>

theorem payments_section_rendering:
  "(buildThermalReceipt h w d t = Returns out \<longrightarrow>
      (\<exists>head. receiptHead h w d t = Returns head
             \<and> out = head @ paymentsSection h w t @ receiptTail h d
             \<and> boldAfter b head \<and> boldAfter b (head @ paymentsSection h w t)))
   \<and> receiptHead h w d (t\<lparr>payments := ps, totalPaid := paid, balanceDue := due\<rparr>) = receiptHead h w d t
   \<and> (payments t = [] \<longrightarrow> paymentsSection h w t = [])
   \<and> (payments t \<noteq> [] \<longrightarrow>
        paymentsSection h w t =
          DrawLine # concat (map (paymentRows h w) (payments t)) @ DrawLine
          # (if totalPaid t > 0
             then [Println (createTwoColumnLine (js ''PAID'') (money h (totalPaid t)) w)] else [])
          @ (if balanceDue t > 0
             then [Println (createTwoColumnLine (js ''DUE'') (money h (balanceDue t)) w)] else []))"
proof -
  have 1: "\<exists>head. receiptHead h w d t = Returns head
             \<and> out = head @ paymentsSection h w t @ receiptTail h d
             \<and> boldAfter b head \<and> boldAfter b (head @ paymentsSection h w t)"
    if run: "buildThermalReceipt h w d t = Returns out"
  proof -
    from run obtain head where head: "receiptHead h w d t = Returns head"
        "out = head @ paymentsSection h w t @ receiptTail h d"
      by (auto simp: buildThermalReceipt_def andThen_Returns)
    have bold: "boldAfter b head" using bold_receiptHead [OF head(1)] by simp
    then have "boldAfter b (head @ paymentsSection h w t)"
      by (simp add: boldAfter_append boldAfter_plain [OF plain_paymentsSection])
    with head bold show ?thesis by blast
  qed
  have 2: "receiptHead h w d (t\<lparr>payments := ps, totalPaid := paid, balanceDue := due\<rparr>) = receiptHead h w d t"
    by (rule head_ignores_payments)
  have 3: "payments t = [] \<longrightarrow> paymentsSection h w t = []"
    by (simp add: paymentsSection_def)
  have 4: "payments t \<noteq> [] \<longrightarrow>
        paymentsSection h w t =
          DrawLine # concat (map (paymentRows h w) (payments t)) @ DrawLine
          # (if totalPaid t > 0
             then [Println (createTwoColumnLine (js ''PAID'') (money h (totalPaid t)) w)] else [])
          @ (if balanceDue t > 0
             then [Println (createTwoColumnLine (js ''DUE'') (money h (balanceDue t)) w)] else [])"
    by (simp add: paymentsSection_def)
  from 1 2 3 4 show ?thesis by blast
qed

lemma money_500: "money wholeAmounts 500 = js ''500''"
  by (simp add: money_def wholeAmounts_def CommaFormatted_eval)

theorem payments_section_rendering_witness:
  "payments teaTotals \<noteq> [] \<and> totalPaid teaTotals > 0 \<and> \<not> balanceDue teaTotals > 0
   \<and> paymentsSection wholeAmounts 32 teaTotals =
        [DrawLine, Println (js ''Cash'' @ replicate 25 SPACE @ js ''500''),
         DrawLine, Println (js ''PAID'' @ replicate 25 SPACE @ js ''500'')]
   \<and> (\<exists>out head. buildThermalReceipt wholeAmounts 32 teaReceipt teaTotals = Returns out
         \<and> receiptHead wholeAmounts 32 teaReceipt teaTotals = Returns head
         \<and> out = head @ paymentsSection wholeAmounts 32 teaTotals @ receiptTail wholeAmounts teaReceipt
         \<and> boldAfter False (head @ paymentsSection wholeAmounts 32 teaTotals))
   \<and> payments (teaTotals\<lparr>payments := []\<rparr>) = []
   \<and> paymentsSection wholeAmounts 32 (teaTotals\<lparr>payments := []\<rparr>) = []"
proof -
  have p: "payments teaTotals \<noteq> []" "totalPaid teaTotals > 0" "\<not> balanceDue teaTotals > 0"
    by (simp_all add: teaTotals_def)
  have e: "payments (teaTotals\<lparr>payments := []\<rparr>) = []" by simp
  obtain out where run: "buildThermalReceipt wholeAmounts 32 teaReceipt teaTotals = Returns out"
    using receipt_returns [of 32 teaReceipt wholeAmounts teaTotals] by (auto simp: teaReceipt_def)
  note inst = payments_section_rendering [where h = wholeAmounts and w = 32 and d = teaReceipt and t = teaTotals
      and out = out and b = False and ps = "[]" and paid = 0 and due = 0]
  have a: "\<exists>out head. buildThermalReceipt wholeAmounts 32 teaReceipt teaTotals = Returns out
         \<and> receiptHead wholeAmounts 32 teaReceipt teaTotals = Returns head
         \<and> out = head @ paymentsSection wholeAmounts 32 teaTotals @ receiptTail wholeAmounts teaReceipt
         \<and> boldAfter False (head @ paymentsSection wholeAmounts 32 teaTotals)"
  proof -
    from inst have "buildThermalReceipt wholeAmounts 32 teaReceipt teaTotals = Returns out \<longrightarrow>
      (\<exists>head. receiptHead wholeAmounts 32 teaReceipt teaTotals = Returns head
             \<and> out = head @ paymentsSection wholeAmounts 32 teaTotals @ receiptTail wholeAmounts teaReceipt
             \<and> boldAfter False head \<and> boldAfter False (head @ paymentsSection wholeAmounts 32 teaTotals))"
      by (rule conjunct1)
    with run obtain head where "receiptHead wholeAmounts 32 teaReceipt teaTotals = Returns head"
        "out = head @ paymentsSection wholeAmounts 32 teaTotals @ receiptTail wholeAmounts teaReceipt"
        "boldAfter False (head @ paymentsSection wholeAmounts 32 teaTotals)"
      by blast
    with run show ?thesis by blast
  qed
  have "paymentsSection wholeAmounts 32 teaTotals =
          DrawLine # concat (map (paymentRows wholeAmounts 32) (payments teaTotals)) @ DrawLine
          # (if totalPaid teaTotals > 0
             then [Println (createTwoColumnLine (js ''PAID'') (money wholeAmounts (totalPaid teaTotals)) 32)] else [])
          @ (if balanceDue teaTotals > 0
             then [Println (createTwoColumnLine (js ''DUE'') (money wholeAmounts (balanceDue teaTotals)) 32)] else [])"
    using inst p(1) by (elim conjE) (erule impE, assumption)
  then have b: "paymentsSection wholeAmounts 32 teaTotals =
        [DrawLine, Println (js ''Cash'' @ replicate 25 SPACE @ js ''500''),
         DrawLine, Println (js ''PAID'' @ replicate 25 SPACE @ js ''500'')]"
    by (simp add: teaTotals_def paymentRows_def money_500 truthy_def createTwoColumnLine_def Let_def)
       (simp add: js_def)
  have c: "paymentsSection wholeAmounts 32 (teaTotals\<lparr>payments := []\<rparr>) = []"
    using payments_section_rendering [where h = wholeAmounts and w = 32 and d = teaReceipt
      and t = "teaTotals\<lparr>payments := []\<rparr>" and out = out and b = False and ps = "[]" and paid = 0 and due = 0] e
    by (elim conjE) (erule impE, assumption)
  from p a b c e show ?thesis by blast
qed

end
